theory Spec2Isabelle
  imports Complex_Main
begin

section \<open>JavaScript numbers\<close>

text \<open>
  The component computes with the JavaScript type \<open>number\<close>, the binary64 format.
  A finite number is modelled by the real it denotes; the three special values are kept,
  because the code divides by a total that can be zero: \<open>x / 0\<close> is \<open>NaN\<close> for
  \<open>x = 0\<close> and an infinity otherwise, and every operation on \<open>NaN\<close> gives
  \<open>NaN\<close>. The sign of zero is not modelled.

  The operations come in two forms. \<open>add64\<close>, \<open>mul64\<close> and \<open>div64\<close> are the
  operations of the program: the exact result rounded to the nearest binary64 value.
  \<open>num_add\<close>, \<open>num_mul\<close> and \<open>num_div\<close> leave the rounding out and treat the
  special values in the same way; they serve the properties in which no rounding takes
  part: the special values, the exceptions and the structure of the chart.
\<close>

datatype number = Fin real | PosInf | NegInf | NaN

text \<open>\<open>a + b\<close> on numbers, without rounding.\<close>

fun num_add :: "number \<Rightarrow> number \<Rightarrow> number" where
  "num_add (Fin a) (Fin b) = Fin (a + b)"
| "num_add NaN _ = NaN"
| "num_add _ NaN = NaN"
| "num_add PosInf NegInf = NaN"
| "num_add NegInf PosInf = NaN"
| "num_add PosInf _ = PosInf"
| "num_add _ PosInf = PosInf"
| "num_add NegInf _ = NegInf"
| "num_add _ NegInf = NegInf"

text \<open>The sign rule shared by \<open>*\<close> and \<open>/\<close> when the result is an infinity.\<close>

definition signed_inf :: "bool \<Rightarrow> number" where
  "signed_inf negative = (if negative then NegInf else PosInf)"

text \<open>\<open>a * b\<close> on numbers, without rounding: an infinity times zero is \<open>NaN\<close>.\<close>

fun num_mul :: "number \<Rightarrow> number \<Rightarrow> number" where
  "num_mul (Fin a) (Fin b) = Fin (a * b)"
| "num_mul NaN _ = NaN"
| "num_mul _ NaN = NaN"
| "num_mul PosInf (Fin b) = (if b = 0 then NaN else signed_inf (b < 0))"
| "num_mul NegInf (Fin b) = (if b = 0 then NaN else signed_inf (0 < b))"
| "num_mul (Fin a) PosInf = (if a = 0 then NaN else signed_inf (a < 0))"
| "num_mul (Fin a) NegInf = (if a = 0 then NaN else signed_inf (0 < a))"
| "num_mul PosInf PosInf = PosInf"
| "num_mul NegInf NegInf = PosInf"
| "num_mul PosInf NegInf = NegInf"
| "num_mul NegInf PosInf = NegInf"

text \<open>
  \<open>a / b\<close> on numbers, without rounding: a finite value divided by zero is
  \<open>NaN\<close> when it is zero itself and an infinity of its own sign otherwise; a finite
  value divided by an infinity is zero; an infinity divided by an infinity is
  \<open>NaN\<close>.
\<close>

fun num_div :: "number \<Rightarrow> number \<Rightarrow> number" where
  "num_div (Fin a) (Fin b) =
     (if b = 0 then (if a = 0 then NaN else signed_inf (a < 0)) else Fin (a / b))"
| "num_div NaN _ = NaN"
| "num_div _ NaN = NaN"
| "num_div (Fin a) PosInf = Fin 0"
| "num_div (Fin a) NegInf = Fin 0"
| "num_div PosInf (Fin b) = signed_inf (b < 0)"
| "num_div NegInf (Fin b) = signed_inf (0 \<le> b)"
| "num_div PosInf PosInf = NaN"
| "num_div PosInf NegInf = NaN"
| "num_div NegInf PosInf = NaN"
| "num_div NegInf NegInf = NaN"


section \<open>Binary64 arithmetic\<close>

text \<open>The integer nearest to \<open>y\<close>; of two integers equally near, the even one.\<close>

definition round_even :: "real \<Rightarrow> int" where
  "round_even y =
     (let n = \<lfloor>y\<rfloor>; d = y - real_of_int n in
      if d < 1 / 2 then n
      else if 1 / 2 < d then n + 1
      else if even n then n else n + 1)"

text \<open>
  The exponent of the last of the 53 bits of \<open>x\<close>; the exponent of a subnormal number
  is \<open>-1074\<close>.
\<close>

definition ulp_exponent :: "real \<Rightarrow> int" where
  "ulp_exponent x = max (\<lfloor>log 2 \<bar>x\<bar>\<rfloor> - 52) (- 1074)"

text \<open>
  Rounding to binary64: the multiple of \<open>2\<close> to the exponent of the last bit that is
  nearest to \<open>x\<close>, ties to even; a result of magnitude \<open>2^1024\<close> or more is an
  infinity.
\<close>

definition round64 :: "real \<Rightarrow> number" where
  "round64 x =
     (if x = 0 then Fin 0
      else
        (let e = ulp_exponent x;
             r = real_of_int (round_even (x / 2 powr real_of_int e)) * 2 powr real_of_int e
         in if 2 ^ 1024 \<le> \<bar>r\<bar> then signed_inf (x < 0) else Fin r))"

text \<open>\<open>a + b\<close>, \<open>a * b\<close> and \<open>a / b\<close> as the program computes them.\<close>

fun add64 :: "number \<Rightarrow> number \<Rightarrow> number" where
  "add64 (Fin a) (Fin b) = round64 (a + b)"
| "add64 NaN _ = NaN"
| "add64 _ NaN = NaN"
| "add64 PosInf NegInf = NaN"
| "add64 NegInf PosInf = NaN"
| "add64 PosInf _ = PosInf"
| "add64 _ PosInf = PosInf"
| "add64 NegInf _ = NegInf"
| "add64 _ NegInf = NegInf"

fun mul64 :: "number \<Rightarrow> number \<Rightarrow> number" where
  "mul64 (Fin a) (Fin b) = round64 (a * b)"
| "mul64 NaN _ = NaN"
| "mul64 _ NaN = NaN"
| "mul64 PosInf (Fin b) = (if b = 0 then NaN else signed_inf (b < 0))"
| "mul64 NegInf (Fin b) = (if b = 0 then NaN else signed_inf (0 < b))"
| "mul64 (Fin a) PosInf = (if a = 0 then NaN else signed_inf (a < 0))"
| "mul64 (Fin a) NegInf = (if a = 0 then NaN else signed_inf (0 < a))"
| "mul64 PosInf PosInf = PosInf"
| "mul64 NegInf NegInf = PosInf"
| "mul64 PosInf NegInf = NegInf"
| "mul64 NegInf PosInf = NegInf"

fun div64 :: "number \<Rightarrow> number \<Rightarrow> number" where
  "div64 (Fin a) (Fin b) =
     (if b = 0 then (if a = 0 then NaN else signed_inf (a < 0)) else round64 (a / b))"
| "div64 NaN _ = NaN"
| "div64 _ NaN = NaN"
| "div64 (Fin a) PosInf = Fin 0"
| "div64 (Fin a) NegInf = Fin 0"
| "div64 PosInf (Fin b) = signed_inf (b < 0)"
| "div64 NegInf (Fin b) = signed_inf (0 \<le> b)"
| "div64 PosInf PosInf = NaN"
| "div64 PosInf NegInf = NaN"
| "div64 NegInf PosInf = NaN"
| "div64 NegInf NegInf = NaN"

text \<open>\<open>Math.PI\<close>, the binary64 value nearest to \<open>pi\<close>.\<close>

definition PI64 :: real where
  "PI64 = 884279719003555 / 2 ^ 48"

section \<open>Measuring the rounding\<close>

text \<open>Half the distance from 1 to the next binary64 value.\<close>

definition unit_roundoff :: real where
  "unit_roundoff = 1 / 2 ^ 53"

text \<open>
  A number \<open>k * 2^e\<close> with \<open>k\<close> from 0 to \<open>2^53\<close> and \<open>e\<close> not below the exponent
  \<open>-1074\<close> of the subnormal numbers: every finite binary64 value that is not negative
  has this form.
\<close>

definition on_grid :: "real \<Rightarrow> bool" where
  "on_grid a =
     (\<exists>k e. a = real_of_int k * 2 powr real_of_int e \<and> 0 \<le> k \<and> k \<le> 2 ^ 53 \<and> - 1074 \<le> e)"

text \<open>A finite number that is positive and not subnormal.\<close>

definition positive_normal :: "number \<Rightarrow> bool" where
  "positive_normal v = (case v of Fin r \<Rightarrow> 2 powr (- 1022) \<le> r | _ \<Rightarrow> False)"

text \<open>
  \<open>x\<close> is \<open>y\<close> up to \<open>i\<close> roundings of a divisor and \<open>j\<close> roundings of the
  value itself: each rounding of a positive normal number multiplies it by a factor
  between \<open>1 / (1 + u)\<close> and \<open>1 / (1 - u)\<close>, where \<open>u\<close> is the unit roundoff.
\<close>

definition close_to :: "nat \<Rightarrow> nat \<Rightarrow> real \<Rightarrow> real \<Rightarrow> bool" where
  "close_to i j x y =
     (y * (1 - unit_roundoff) ^ i / (1 + unit_roundoff) ^ j \<le> x \<and>
      x \<le> y * (1 + unit_roundoff) ^ i / (1 - unit_roundoff) ^ j)"

section \<open>The data of a chart\<close>

text \<open>
  \<^verbatim>\<open>export type PieData = { label: string; quantity: number; color: string }\<close>
\<close>

record PieData =
  label :: string
  quantity :: number
  color :: string

text \<open>
  Reading \<open>props.data[counter].quantity\<close> past the end of the array reads a property
  of \<open>undefined\<close>, which throws.
\<close>

datatype error = TypeError

section \<open>The constants of \<open>PieChart.vue\<close>\<close>

text \<open>
  \<^verbatim>\<open>const radius = 16\<close>, \<^verbatim>\<open>const viewbox = radius * 2\<close>,
  \<^verbatim>\<open>const circumference = 2 * Math.PI * radius\<close>,
  \<^verbatim>\<open>const minRadiusMask = radius - props.data.length\<close>,
  \<^verbatim>\<open>const strokeWidth = 23\<close>.
  The radius, the length of the array and the position of an entry are integers, and so
  is what the code computes from them alone.
\<close>

definition radius :: int where
  "radius = 16"

definition viewbox :: int where
  "viewbox = radius * 2"

definition circumference :: number where
  "circumference = num_mul (num_mul (Fin 2) (Fin pi)) (Fin (real_of_int radius))"

definition minRadiusMask :: "PieData list \<Rightarrow> int" where
  "minRadiusMask data = radius - int (length data)"

definition strokeWidth :: int where
  "strokeWidth = 23"

text \<open>The radius bound in the template to the mask of entry \<open>i\<close>: \<^verbatim>\<open>:r="minRadiusMask + i"\<close>.\<close>

definition maskRadius :: "PieData list \<Rightarrow> nat \<Rightarrow> int" where
  "maskRadius data i = minRadiusMask data + int i"

section \<open>The functions of \<open>PieChart.vue\<close>\<close>

text \<open>
  \<^verbatim>\<open>props.data.reduce((accumulator, element) => accumulator + element.quantity, 0)\<close>
\<close>

definition totalPercentage :: "PieData list \<Rightarrow> number" where
  "totalPercentage data = foldl (\<lambda>accumulator element. num_add accumulator (quantity element)) (Fin 0) data"

text \<open>\<^verbatim>\<open>(quantity * 100) / totalPercentage.value\<close>\<close>

definition getSinglePercentage :: "PieData list \<Rightarrow> number \<Rightarrow> number" where
  "getSinglePercentage data q = num_div (num_mul q (Fin 100)) (totalPercentage data)"

text \<open>\<^verbatim>\<open>(circumference * getSinglePercentage(quantity)) / 100\<close>\<close>

definition getSlice :: "PieData list \<Rightarrow> number \<Rightarrow> number" where
  "getSlice data q = num_div (num_mul circumference (getSinglePercentage data q)) (Fin 100)"

text \<open>
  \<^verbatim>\<open>
  let angle = 0
  let counter = 0
  while (counter < index) {
    angle += (getSinglePercentage(props.data[counter].quantity) / 100) * 360
    counter++
  }
  return angle
  \<close>
  The loop has no check of \<open>counter\<close> against the length of the array.
\<close>

function getRotate_loop :: "PieData list \<Rightarrow> int \<Rightarrow> number \<Rightarrow> nat \<Rightarrow> error + number" where
  "getRotate_loop data index angle counter =
     (if int counter < index then
        (if counter < length data then
           getRotate_loop data index
             (num_add angle
                (num_mul (num_div (getSinglePercentage data (quantity (data ! counter))) (Fin 100))
                   (Fin 360)))
             (Suc counter)
         else Inl TypeError)
      else Inr angle)"
  by pat_completeness auto
termination
  by (relation "measure (\<lambda>(data, index, angle, counter). nat (index - int counter))") auto

declare getRotate_loop.simps [simp del]

definition getRotate :: "PieData list \<Rightarrow> int \<Rightarrow> error + number" where
  "getRotate data index = getRotate_loop data index (Fin 0) 0"

text \<open>
  \<^verbatim>\<open>const getDelay = (index: number) => `${0.5 + index / 3}s`\<close>
  The template string is the number followed by the unit; the model keeps the number
  and the unit apart instead of printing the number.
\<close>

definition getDelay :: "int \<Rightarrow> real \<times> string" where
  "getDelay index = (0.5 + real_of_int index / 3, ''s'')"

section \<open>The functions of \<open>PieChart.vue\<close> in binary64 arithmetic\<close>

text \<open>
  The constant \<open>circumference\<close> and the functions \<open>totalPercentage\<close>,
  \<open>getSinglePercentage\<close>, \<open>getSlice\<close> and \<open>getRotate\<close> once more, every operation
  rounded as the program rounds it.
\<close>

definition circumference64 :: number where
  "circumference64 = mul64 (mul64 (Fin 2) (Fin PI64)) (Fin (real_of_int radius))"

definition totalPercentage64 :: "PieData list \<Rightarrow> number" where
  "totalPercentage64 data =
     foldl (\<lambda>accumulator element. add64 accumulator (quantity element)) (Fin 0) data"

definition getSinglePercentage64 :: "PieData list \<Rightarrow> number \<Rightarrow> number" where
  "getSinglePercentage64 data q = div64 (mul64 q (Fin 100)) (totalPercentage64 data)"

definition getSlice64 :: "PieData list \<Rightarrow> number \<Rightarrow> number" where
  "getSlice64 data q = div64 (mul64 circumference64 (getSinglePercentage64 data q)) (Fin 100)"

function getRotate64_loop :: "PieData list \<Rightarrow> int \<Rightarrow> number \<Rightarrow> nat \<Rightarrow> error + number" where
  "getRotate64_loop data index angle counter =
     (if int counter < index then
        (if counter < length data then
           getRotate64_loop data index
             (add64 angle
                (mul64 (div64 (getSinglePercentage64 data (quantity (data ! counter))) (Fin 100))
                   (Fin 360)))
             (Suc counter)
         else Inl TypeError)
      else Inr angle)"
  by pat_completeness auto
termination
  by (relation "measure (\<lambda>(data, index, angle, counter). nat (index - int counter))") auto

declare getRotate64_loop.simps [simp del]

definition getRotate64 :: "PieData list \<Rightarrow> int \<Rightarrow> error + number" where
  "getRotate64 data index = getRotate64_loop data index (Fin 0) 0"

text \<open>
  What the loop of \<open>getRotate\<close> adds up: the angles
  \<open>(getSinglePercentage(quantity) / 100) * 360\<close> of the entries strictly before
  \<open>index\<close>, added from the left, starting from 0.
\<close>

definition cumulativeRotation64 :: "nat \<Rightarrow> PieData list \<Rightarrow> number" where
  "cumulativeRotation64 index data =
     foldl (\<lambda>angle d.
              add64 angle
                (mul64 (div64 (getSinglePercentage64 data (quantity d)) (Fin 100)) (Fin 360)))
       (Fin 0) (take index data)"

text \<open>
  The computation stays in range when no result of an operation overflows or is
  subnormal: the partial sums of the total, the four results on the way to a dash
  length, and the results on the way to an angle and the partial sums of the angles.
\<close>

definition totals_in_range :: "PieData list \<Rightarrow> bool" where
  "totals_in_range data =
     (\<forall>k\<in>set [1..<Suc (length data)]. positive_normal (totalPercentage64 (take k data)))"

definition slices_in_range :: "PieData list \<Rightarrow> bool" where
  "slices_in_range data =
     (\<forall>d\<in>set data.
        positive_normal (mul64 (quantity d) (Fin 100)) \<and>
        positive_normal (getSinglePercentage64 data (quantity d)) \<and>
        positive_normal (mul64 circumference64 (getSinglePercentage64 data (quantity d))) \<and>
        positive_normal (getSlice64 data (quantity d)))"

definition rotation_in_range :: "PieData list \<Rightarrow> bool" where
  "rotation_in_range data =
     ((\<forall>d\<in>set data.
         positive_normal (mul64 (quantity d) (Fin 100)) \<and>
         positive_normal (getSinglePercentage64 data (quantity d)) \<and>
         positive_normal (div64 (getSinglePercentage64 data (quantity d)) (Fin 100)) \<and>
         positive_normal
           (mul64 (div64 (getSinglePercentage64 data (quantity d)) (Fin 100)) (Fin 360))) \<and>
      (\<forall>k\<in>set [1..<Suc (length data)].
         (case getRotate64 data (int k) of Inl e \<Rightarrow> False | Inr angle \<Rightarrow> positive_normal angle)))"

section \<open>Strings\<close>

text \<open>
  \<open>s.replace(pattern, replacement)\<close> with a pattern that is a string of one character:
  the first occurrence is replaced and the rest of the string is kept as it is.
\<close>

fun str_replace :: "string \<Rightarrow> char \<Rightarrow> string \<Rightarrow> string" where
  "str_replace [] pattern replacement = []"
| "str_replace (c # cs) pattern replacement =
     (if c = pattern then replacement @ cs else c # str_replace cs pattern replacement)"

text \<open>
  \<open>s.split(separator)\<close> with a separator of one character: the pieces between the
  separators, in order; a string without the separator (also the empty string) is its
  only piece.
\<close>

fun str_split :: "string \<Rightarrow> char \<Rightarrow> string list" where
  "str_split [] separator = [[]]"
| "str_split (c # cs) separator =
     (if c = separator then [] # str_split cs separator
      else (case str_split cs separator of
              [] \<Rightarrow> [[c]]
            | piece # pieces \<Rightarrow> (c # piece) # pieces))"

text \<open>\<open>xs[i]\<close> on an array: \<open>None\<close> stands for \<open>undefined\<close>.\<close>

definition at_index :: "'a list \<Rightarrow> nat \<Rightarrow> 'a option" where
  "at_index xs i = (if i < length xs then Some (xs ! i) else None)"

text \<open>A string or \<open>undefined\<close> inside a template string.\<close>

definition string_to_string :: "string option \<Rightarrow> string" where
  "string_to_string v = (case v of None \<Rightarrow> ''undefined'' | Some s \<Rightarrow> s)"

text \<open>The decimal digits of a natural number, as a template string prints an index.\<close>

definition digit_char :: "nat \<Rightarrow> char" where
  "digit_char d = ''0123456789'' ! d"

function show_nat :: "nat \<Rightarrow> string" where
  "show_nat n = (if n < 10 then [digit_char n] else show_nat (n div 10) @ [digit_char (n mod 10)])"
  by pat_completeness auto
termination
  by (relation "measure (\<lambda>n. n)") auto

declare show_nat.simps [simp del]

text \<open>
  An integer or \<open>NaN\<close> (\<open>None\<close>) inside a template string. Integers are printed in
  full; the exponent notation of numbers from \<open>10^21\<close> on is not modelled.
\<close>

definition int_to_string :: "int option \<Rightarrow> string" where
  "int_to_string v =
     (case v of
        None \<Rightarrow> ''NaN''
      | Some i \<Rightarrow> (if i < 0 then CHR ''-'' # show_nat (nat (- i)) else show_nat (nat i)))"

text \<open>
  \<open>parseInt(string)\<close> without a radix: the argument is converted to a string
  (\<open>undefined\<close> to \<open>"undefined"\<close>), leading white space is skipped, a sign is read,
  a prefix \<open>0x\<close> or \<open>0X\<close> selects radix 16 and radix 10 is used otherwise, and the
  longest run of digits of that radix is the value; without a digit the result is
  \<open>NaN\<close> (\<open>None\<close>). A character of the model is a code unit below 256, and the
  white space among these is the tab, the line feed, the vertical tab, the form feed,
  the carriage return, the space and the no-break space. The value is the exact integer:
  the loss of precision of a number beyond \<open>2^53\<close> is not modelled.
\<close>

definition white_space :: "char \<Rightarrow> bool" where
  "white_space c = (c \<in> {CHR 0x09, CHR 0x0A, CHR 0x0B, CHR 0x0C, CHR 0x0D, CHR 0x20, CHR 0xA0})"

definition digit_value :: "char \<Rightarrow> nat option" where
  "digit_value c =
     (let n = (of_char c :: nat) in
      if 48 \<le> n \<and> n \<le> 57 then Some (n - 48)
      else if 97 \<le> n \<and> n \<le> 102 then Some (n - 87)
      else if 65 \<le> n \<and> n \<le> 70 then Some (n - 55)
      else None)"

definition radix_digit :: "nat \<Rightarrow> char \<Rightarrow> nat option" where
  "radix_digit R c =
     (case digit_value c of None \<Rightarrow> None | Some d \<Rightarrow> (if d < R then Some d else None))"

fun parse_digits :: "nat \<Rightarrow> string \<Rightarrow> nat option \<Rightarrow> nat option" where
  "parse_digits R [] acc = acc"
| "parse_digits R (c # cs) acc =
     (case radix_digit R c of
        None \<Rightarrow> acc
      | Some d \<Rightarrow> parse_digits R cs (Some (R * (case acc of None \<Rightarrow> 0 | Some n \<Rightarrow> n) + d)))"

definition parseInt :: "string option \<Rightarrow> int option" where
  "parseInt arg =
     (let inputString = string_to_string arg;
          S = dropWhile white_space inputString;
          negative = (take 1 S = ''-'');
          S1 = (if take 1 S = ''+'' \<or> take 1 S = ''-'' then drop 1 S else S);
          hex = (take 2 S1 = ''0x'' \<or> take 2 S1 = ''0X'');
          R = (if hex then 16 else 10);
          Z = (if hex then drop 2 S1 else S1)
      in case parse_digits R Z None of
           None \<Rightarrow> None
         | Some n \<Rightarrow> Some (if negative then - int n else int n))"

section \<open>Identifiers and colors\<close>

text \<open>
  \<open>PieChart.vue\<close>: \<^verbatim>\<open>const getId = (label: string) => label.replace(" ", "-")\<close>
\<close>

definition getId :: "string \<Rightarrow> string" where
  "getId lbl = str_replace lbl CHR '' '' ''-''"

text \<open>
  The variant of the component with a radial gradient, and the tutorial:
  \<^verbatim>\<open>const getId = (label: string, index: number) => `${label.replace(" ", "-")}-${index}`\<close>
\<close>

definition getId_index :: "string \<Rightarrow> nat \<Rightarrow> string" where
  "getId_index lbl index = str_replace lbl CHR '' '' ''-'' @ ''-'' @ show_nat index"

text \<open>
  The variant with a radial gradient:
  \<^verbatim>\<open>
  const colorSplit = color.split("%")
  const lightness = parseInt(colorSplit[1]) > 30 ? parseInt(colorSplit[1]) - 30 : parseInt(colorSplit[1]) + 20
  return `${colorSplit[0]}% ${lightness}% ${colorSplit[2]}`
  \<close>
  A comparison with \<open>NaN\<close> is false and \<open>NaN + 20\<close> is \<open>NaN\<close>.
\<close>

definition lightness_of :: "int option \<Rightarrow> int option" where
  "lightness_of parsed =
     (case parsed of
        None \<Rightarrow> None
      | Some n \<Rightarrow> (if n > 30 then Some (n - 30) else Some (n + 20)))"

definition colorBrightness :: "string \<Rightarrow> string" where
  "colorBrightness c =
     (let colorSplit = str_split c CHR ''%'';
          lightness = lightness_of (parseInt (at_index colorSplit 1))
      in string_to_string (at_index colorSplit 0) @ ''% '' @ int_to_string lightness @ ''% ''
           @ string_to_string (at_index colorSplit 2))"

text \<open>
  The colors of the mock data are written \<open>hsl(H S% L%)\<close>: hue, saturation and
  lightness.
\<close>

definition hsl :: "nat \<Rightarrow> nat \<Rightarrow> nat \<Rightarrow> string" where
  "hsl h s l = ''hsl('' @ show_nat h @ '' '' @ show_nat s @ ''% '' @ show_nat l @ ''%)''"

section \<open>The template of \<open>PieChart.vue\<close>\<close>

text \<open>
  For every entry \<open>datum\<close> at position \<open>i\<close> the template draws a mask and a circle:
  \<^verbatim>\<open>
  <mask :id="getId(datum.label)">
    <circle :r="minRadiusMask + i" ... />
  </mask>
  <circle :mask="`url(#${getId(datum.label)})`"
    :style="`--rotate: ${getRotate(i)}deg; --color: ${datum.color}; --delay: ${getDelay(i)};
             stroke-dasharray:${getSlice(datum.quantity)}px, ${circumference}px; ...`">
  \<close>
  A slice is the record of what is bound there.
\<close>

record Slice =
  mask_id :: string
  mask_r :: int
  rotate :: number
  stroke_color :: string
  delay :: "real \<times> string"
  dash :: number
  gap :: number

definition slice :: "PieData list \<Rightarrow> nat \<Rightarrow> PieData \<Rightarrow> error + Slice" where
  "slice data i datum =
     (case getRotate data (int i) of
        Inl e \<Rightarrow> Inl e
      | Inr angle \<Rightarrow>
          Inr \<lparr>mask_id = getId (label datum),
               mask_r = maskRadius data i,
               rotate = angle,
               stroke_color = color datum,
               delay = getDelay (int i),
               dash = getSlice data (quantity datum),
               gap = circumference\<rparr>)"

text \<open>The \<open>v-for\<close> over the entries, from position \<open>i\<close> on; an exception ends it.\<close>

fun slices_from :: "PieData list \<Rightarrow> nat \<Rightarrow> PieData list \<Rightarrow> error + Slice list" where
  "slices_from data i [] = Inr []"
| "slices_from data i (datum # rest) =
     (case slice data i datum of
        Inl e \<Rightarrow> Inl e
      | Inr s \<Rightarrow>
          (case slices_from data (Suc i) rest of
             Inl e \<Rightarrow> Inl e
           | Inr ss \<Rightarrow> Inr (s # ss)))"

definition pieChart :: "PieData list \<Rightarrow> error + Slice list" where
  "pieChart data = slices_from data 0 data"

section \<open>Example data\<close>

text \<open>
  The mock data of the view that hosts the chart:
  \<^verbatim>\<open>
  const data = [
    { label: "Lorem", quantity: 70, color: "hsl(20 60% 50%)" },
    { label: "Ipsum Dolor", quantity: 10, color: "hsl(180 60% 50%)" },
    { label: "Sit", quantity: 20, color: "hsl(200 60% 50%)" },
  ]
  \<close>
\<close>

definition mock_data :: "PieData list" where
  "mock_data =
     [\<lparr>label = ''Lorem'', quantity = Fin 70, color = ''hsl(20 60% 50%)''\<rparr>,
      \<lparr>label = ''Ipsum Dolor'', quantity = Fin 10, color = ''hsl(180 60% 50%)''\<rparr>,
      \<lparr>label = ''Sit'', quantity = Fin 20, color = ''hsl(200 60% 50%)''\<rparr>]"

text \<open>Four entries of quantity 1: a total of 4, not 100.\<close>

definition quarters :: "PieData list" where
  "quarters =
     [\<lparr>label = ''A'', quantity = Fin 1, color = ''hsl(20 60% 50%)''\<rparr>,
      \<lparr>label = ''B'', quantity = Fin 1, color = ''hsl(110 60% 50%)''\<rparr>,
      \<lparr>label = ''C'', quantity = Fin 1, color = ''hsl(200 60% 50%)''\<rparr>,
      \<lparr>label = ''D'', quantity = Fin 1, color = ''hsl(290 60% 50%)''\<rparr>]"

text \<open>Three entries of quantity 1: a total of 3.\<close>

definition thirds :: "PieData list" where
  "thirds =
     [\<lparr>label = ''A'', quantity = Fin 1, color = ''hsl(20 60% 50%)''\<rparr>,
      \<lparr>label = ''B'', quantity = Fin 1, color = ''hsl(140 60% 50%)''\<rparr>,
      \<lparr>label = ''C'', quantity = Fin 1, color = ''hsl(260 60% 50%)''\<rparr>]"

text \<open>Two entries that carry the same label.\<close>

definition same_label_data :: "PieData list" where
  "same_label_data =
     [\<lparr>label = ''Lorem'', quantity = Fin 70, color = ''hsl(20 60% 50%)''\<rparr>,
      \<lparr>label = ''Lorem'', quantity = Fin 30, color = ''hsl(180 60% 50%)''\<rparr>]"


section \<open>Totals\<close>



lemma sum_list_positive:
  "qs \<noteq> [] \<Longrightarrow> \<forall>q\<in>set qs. 0 < q \<Longrightarrow> 0 < sum_list (qs :: real list)"
  by (induction qs) (auto intro: add_pos_nonneg sum_list_nonneg less_imp_le)


section \<open>Rounding to binary64\<close>

lemma round_even_half: "\<bar>real_of_int (round_even y) - y\<bar> \<le> 1 / 2"
  unfolding round_even_def Let_def by (auto simp: abs_le_iff; linarith)

lemma round_even_ge: "real_of_int k \<le> y \<Longrightarrow> k \<le> round_even y"
  unfolding round_even_def Let_def by (auto simp: le_floor_iff; linarith)

lemma round_even_le: "y \<le> real_of_int k \<Longrightarrow> round_even y \<le> k"
proof -
  assume y: "y \<le> real_of_int k"
  show ?thesis
  proof (cases "y = real_of_int k")
    case True
    then show ?thesis by (simp add: round_even_def)
  next
    case False
    with y have "y < real_of_int k" by simp
    then have "\<lfloor>y\<rfloor> < k" by (simp add: floor_less_iff)
    then have "\<lfloor>y\<rfloor> + 1 \<le> k" by simp
    moreover have "round_even y \<le> \<lfloor>y\<rfloor> + 1"
      unfolding round_even_def Let_def by simp
    ultimately show ?thesis by linarith
  qed
qed

lemma ulp_exponent_lower:
  assumes "0 < x" and "- 1074 < ulp_exponent x"
  shows "2 powr real_of_int (ulp_exponent x + 52) \<le> x"
proof -
  from assms(2) have e: "ulp_exponent x = \<lfloor>log 2 x\<rfloor> - 52"
    using assms(1) by (simp add: ulp_exponent_def max_def split: if_splits)
  have "2 powr real_of_int \<lfloor>log 2 x\<rfloor> \<le> x"
    using floor_log_eq_powr_iff [of x 2 "\<lfloor>log 2 x\<rfloor>"] assms(1) by simp
  with e show ?thesis by simp
qed

lemma ulp_exponent_upper:
  assumes "0 < x"
  shows "x < 2 powr real_of_int (ulp_exponent x + 53)"
proof -
  have "x < 2 powr real_of_int (\<lfloor>log 2 x\<rfloor> + 1)"
    using floor_log_eq_powr_iff [of x 2 "\<lfloor>log 2 x\<rfloor>"] assms by simp
  also have "\<dots> \<le> 2 powr real_of_int (ulp_exponent x + 53)"
    using assms by (intro powr_mono) (simp_all add: ulp_exponent_def)
  finally show ?thesis .
qed

lemma ulp_exponent_floor: "- 1074 \<le> ulp_exponent x"
  by (simp add: ulp_exponent_def)

lemma round64_positive_form:
  assumes "0 < x" and "round64 x = Fin r"
  shows "r = real_of_int (round_even (x / 2 powr real_of_int (ulp_exponent x)))
               * 2 powr real_of_int (ulp_exponent x)"
  using assms by (simp add: round64_def Let_def signed_inf_def split: if_splits)

lemma round_even_scaled_upper:
  assumes "0 < x"
  shows "round_even (x / 2 powr real_of_int (ulp_exponent x)) \<le> 2 ^ 53"
proof -
  have "x / 2 powr real_of_int (ulp_exponent x) < 2 powr 53"
    using ulp_exponent_upper [OF assms]
    by (simp add: powr_add divide_less_eq mult.commute)
  then have "x / 2 powr real_of_int (ulp_exponent x) \<le> real_of_int (2 ^ 53)"
    by simp
  then show ?thesis by (rule round_even_le)
qed

lemma round_even_scaled_nonneg:
  assumes "0 \<le> x"
  shows "0 \<le> round_even (x / 2 powr real_of_int e)"
  using assms by (intro round_even_ge) simp

lemma round64_on_grid:
  assumes "0 \<le> x" and "round64 x = Fin r"
  shows "on_grid r"
proof (cases "x = 0")
  case True
  with assms(2) have "r = 0" by (simp add: round64_def)
  then show ?thesis
    unfolding on_grid_def by (intro exI [of _ 0]) simp
next
  case False
  with assms(1) have pos: "0 < x" by simp
  show ?thesis
    unfolding on_grid_def
    using round64_positive_form [OF pos assms(2)] round_even_scaled_upper [OF pos]
      round_even_scaled_nonneg [OF assms(1)] ulp_exponent_floor
    by blast
qed

lemma round64_nonneg:
  assumes "0 \<le> x" and "round64 x = Fin r"
  shows "0 \<le> r"
  using round64_on_grid [OF assms] by (auto simp: on_grid_def)

lemma round64_lower_power:
  assumes "0 < x" and "round64 x = Fin r" and "- 1074 < ulp_exponent x"
  shows "2 powr real_of_int (ulp_exponent x + 52) \<le> r"
proof -
  let ?e = "ulp_exponent x"
  have "2 powr 52 \<le> x / 2 powr real_of_int ?e"
    using ulp_exponent_lower [OF assms(1,3)]
    by (simp add: powr_add le_divide_eq mult.commute)
  then have "real_of_int (2 ^ 52) \<le> x / 2 powr real_of_int ?e"
    by simp
  then have "2 ^ 52 \<le> round_even (x / 2 powr real_of_int ?e)"
    by (rule round_even_ge)
  then have "real_of_int (2 ^ 52) \<le> real_of_int (round_even (x / 2 powr real_of_int ?e))"
    by (simp only: of_int_le_iff)
  then have "2 powr 52 * 2 powr real_of_int ?e
               \<le> real_of_int (round_even (x / 2 powr real_of_int ?e)) * 2 powr real_of_int ?e"
    by (intro mult_right_mono) simp_all
  then show ?thesis
    using round64_positive_form [OF assms(1,2)] by (simp add: powr_add mult.commute)
qed

lemma round64_relative:
  assumes "0 < x" and "round64 x = Fin r" and "2 powr (- 1022) \<le> r"
  shows "\<bar>r - x\<bar> \<le> unit_roundoff * r"
proof -
  let ?e = "ulp_exponent x"
  let ?k = "round_even (x / 2 powr real_of_int ?e)"
  have r: "r = real_of_int ?k * 2 powr real_of_int ?e"
    by (rule round64_positive_form [OF assms(1,2)])
  have "\<bar>real_of_int ?k - x / 2 powr real_of_int ?e\<bar> \<le> 1 / 2"
    by (rule round_even_half)
  then have "\<bar>real_of_int ?k - x / 2 powr real_of_int ?e\<bar> * 2 powr real_of_int ?e
               \<le> 1 / 2 * 2 powr real_of_int ?e"
    by (intro mult_right_mono) simp_all
  moreover have "\<bar>real_of_int ?k - x / 2 powr real_of_int ?e\<bar> * 2 powr real_of_int ?e = \<bar>r - x\<bar>"
  proof -
    have "\<bar>real_of_int ?k - x / 2 powr real_of_int ?e\<bar> * 2 powr real_of_int ?e
            = \<bar>(real_of_int ?k - x / 2 powr real_of_int ?e) * 2 powr real_of_int ?e\<bar>"
      by (simp add: abs_mult)
    also have "(real_of_int ?k - x / 2 powr real_of_int ?e) * 2 powr real_of_int ?e = r - x"
      by (simp add: r left_diff_distrib)
    finally show ?thesis .
  qed
  ultimately have err: "\<bar>r - x\<bar> \<le> 1 / 2 * 2 powr real_of_int ?e"
    by simp
  have low: "2 powr real_of_int (?e + 52) \<le> r"
  proof (cases "- 1074 < ?e")
    case True
    then show ?thesis by (rule round64_lower_power [OF assms(1,2)])
  next
    case False
    moreover have "- 1074 \<le> ?e" by (simp add: ulp_exponent_def)
    ultimately have "?e = - 1074" by simp
    with assms(3) show ?thesis by simp
  qed
  have "1 / 2 * 2 powr real_of_int ?e = unit_roundoff * 2 powr real_of_int (?e + 52)"
    by (simp add: unit_roundoff_def powr_add)
  also have "\<dots> \<le> unit_roundoff * r"
    using low by (intro mult_left_mono) (simp_all add: unit_roundoff_def)
  finally show ?thesis
    using err by linarith
qed

lemma round64_bounds:
  assumes "0 < x" and "round64 x = Fin r" and "2 powr (- 1022) \<le> r"
  shows "x / (1 + unit_roundoff) \<le> r \<and> r \<le> x / (1 - unit_roundoff)"
proof -
  have u: "0 < unit_roundoff" "unit_roundoff < 1"
    by (simp_all add: unit_roundoff_def)
  from round64_relative [OF assms] have "r - x \<le> unit_roundoff * r" "x - r \<le> unit_roundoff * r"
    by (simp_all add: abs_le_iff)
  then have "r * (1 - unit_roundoff) \<le> x" "x \<le> r * (1 + unit_roundoff)"
    by (simp_all add: algebra_simps)
  with u show ?thesis
    by (simp add: pos_le_divide_eq pos_divide_le_eq)
qed

lemma round64_ge:
  assumes "on_grid a" and "a \<le> x" and "round64 x = Fin r"
  shows "a \<le> r"
proof -
  from assms(1) obtain k e0 where a: "a = real_of_int k * 2 powr real_of_int e0"
      and k: "0 \<le> k" "k \<le> 2 ^ 53" and e0: "- 1074 \<le> e0"
    by (auto simp: on_grid_def)
  have a0: "0 \<le> a"
    using a k by simp
  show ?thesis
  proof (cases "a = 0")
    case True
    with assms(2,3) show ?thesis
      using round64_nonneg by simp
  next
    case False
    with a0 assms(2) have pos: "0 < x" by simp
    let ?e = "ulp_exponent x"
    have r: "r = real_of_int (round_even (x / 2 powr real_of_int ?e)) * 2 powr real_of_int ?e"
      by (rule round64_positive_form [OF pos assms(3)])
    show ?thesis
    proof (cases "?e \<le> e0")
      case True
      then obtain n where n: "e0 = ?e + int n"
        by (metis nonneg_int_cases diff_ge_0_iff_ge add_diff_cancel_left' add.commute diff_add_cancel)
      have scaled: "a / 2 powr real_of_int ?e = real_of_int (k * 2 ^ n)"
        by (simp add: a n powr_add powr_realpow)
      have "a / 2 powr real_of_int ?e \<le> x / 2 powr real_of_int ?e"
        using assms(2) by (simp add: divide_right_mono)
      then have "k * 2 ^ n \<le> round_even (x / 2 powr real_of_int ?e)"
        unfolding scaled by (rule round_even_ge)
      then have "real_of_int (k * 2 ^ n) \<le> real_of_int (round_even (x / 2 powr real_of_int ?e))"
        by (simp only: of_int_le_iff)
      then have "real_of_int (k * 2 ^ n) * 2 powr real_of_int ?e \<le> r"
        unfolding r by (intro mult_right_mono) simp_all
      moreover have "real_of_int (k * 2 ^ n) * 2 powr real_of_int ?e = a"
        by (simp add: a n powr_add powr_realpow)
      ultimately show ?thesis by simp
    next
      case False
      then have lt: "e0 + 1 \<le> ?e" by simp
      with e0 have above: "- 1074 < ?e" by simp
      have "a \<le> 2 powr real_of_int (e0 + 53)"
      proof -
        have "real_of_int k \<le> real_of_int (2 ^ 53)"
          using k(2) by (simp only: of_int_le_iff)
        then have "real_of_int k \<le> 2 powr 53"
          by simp
        then have "real_of_int k * 2 powr real_of_int e0 \<le> 2 powr 53 * 2 powr real_of_int e0"
          by (intro mult_right_mono) simp_all
        then show ?thesis
          by (simp add: a powr_add mult.commute)
      qed
      also have "\<dots> \<le> 2 powr real_of_int (?e + 52)"
        using lt by (intro powr_mono) simp_all
      also have "\<dots> \<le> r"
        using above by (rule round64_lower_power [OF pos assms(3)])
      finally show ?thesis .
    qed
  qed
qed

lemma round64_eval:
  assumes "0 < x"
    and "2 powr real_of_int (e + 52) \<le> x" and "x < 2 powr real_of_int (e + 53)"
    and "- 1074 \<le> e"
    and "round_even (x / 2 powr real_of_int e) = k"
    and "real_of_int k * 2 powr real_of_int e = r"
    and "\<bar>r\<bar> < 2 ^ 1024"
  shows "round64 x = Fin r"
proof -
  have "\<lfloor>log 2 x\<rfloor> = e + 52"
    using assms(1-3) floor_log_eq_powr_iff [of x 2 "e + 52"] by (simp add: add.commute add.left_commute ac_simps)
  with assms(1,4) have "ulp_exponent x = e"
    by (simp add: ulp_exponent_def)
  with assms(1,5,6,7) show ?thesis
    by (simp add: round64_def Let_def)
qed

section \<open>Accumulated rounding\<close>

lemma unit_roundoff_range: "0 < unit_roundoff" "unit_roundoff < 1"
  by (simp_all add: unit_roundoff_def)

lemma low_factor_range:
  "0 < (1 - unit_roundoff) ^ i / (1 + unit_roundoff) ^ j"
  "(1 - unit_roundoff) ^ i / (1 + unit_roundoff) ^ j \<le> 1"
proof -
  have a: "0 < (1 - unit_roundoff) ^ i" "(1 - unit_roundoff) ^ i \<le> 1"
    using unit_roundoff_range by (simp_all add: power_le_one)
  have b: "1 \<le> (1 + unit_roundoff) ^ j"
    using unit_roundoff_range by (simp add: one_le_power)
  from a b show "0 < (1 - unit_roundoff) ^ i / (1 + unit_roundoff) ^ j"
    by simp
  from a b have "(1 - unit_roundoff) ^ i \<le> (1 + unit_roundoff) ^ j"
    by linarith
  with b show "(1 - unit_roundoff) ^ i / (1 + unit_roundoff) ^ j \<le> 1"
    by (simp add: divide_le_eq_1)
qed

lemma high_factor_range:
  "1 \<le> (1 + unit_roundoff) ^ i / (1 - unit_roundoff) ^ j"
proof -
  have a: "0 < (1 - unit_roundoff) ^ j" "(1 - unit_roundoff) ^ j \<le> 1"
    using unit_roundoff_range by (simp_all add: power_le_one)
  have b: "1 \<le> (1 + unit_roundoff) ^ i"
    using unit_roundoff_range by (simp add: one_le_power)
  from a b have "(1 - unit_roundoff) ^ j \<le> (1 + unit_roundoff) ^ i"
    by linarith
  with a show ?thesis
    by (simp add: le_divide_eq_1)
qed

lemma close_to_refl: "0 \<le> y \<Longrightarrow> close_to 0 0 y y"
  by (simp add: close_to_def)

lemma close_to_positive:
  assumes "close_to i j x y" and "0 < y"
  shows "0 < x"
proof -
  have "0 < y * ((1 - unit_roundoff) ^ i / (1 + unit_roundoff) ^ j)"
    using assms(2) low_factor_range(1) by (rule mult_pos_pos)
  with assms(1) show ?thesis
    by (simp add: close_to_def)
qed

lemma low_factor_mono:
  assumes "i \<le> i'" and "j \<le> j'"
  shows "(1 - unit_roundoff) ^ i' / (1 + unit_roundoff) ^ j'
           \<le> (1 - unit_roundoff) ^ i / (1 + unit_roundoff) ^ j"
proof -
  have "(1 - unit_roundoff) ^ i' \<le> (1 - unit_roundoff) ^ i"
    using assms(1) unit_roundoff_range by (intro power_decreasing) simp_all
  moreover have "(1 + unit_roundoff) ^ j \<le> (1 + unit_roundoff) ^ j'"
    using assms(2) unit_roundoff_range by (intro power_increasing) simp_all
  moreover have "0 < (1 + unit_roundoff) ^ j" "0 \<le> (1 - unit_roundoff) ^ i"
    using unit_roundoff_range by simp_all
  ultimately show ?thesis
    by (intro frac_le) simp_all
qed

lemma high_factor_mono:
  assumes "i \<le> i'" and "j \<le> j'"
  shows "(1 + unit_roundoff) ^ i / (1 - unit_roundoff) ^ j
           \<le> (1 + unit_roundoff) ^ i' / (1 - unit_roundoff) ^ j'"
proof -
  have "(1 + unit_roundoff) ^ i \<le> (1 + unit_roundoff) ^ i'"
    using assms(1) unit_roundoff_range by (intro power_increasing) simp_all
  moreover have "(1 - unit_roundoff) ^ j' \<le> (1 - unit_roundoff) ^ j"
    using assms(2) unit_roundoff_range by (intro power_decreasing) simp_all
  moreover have "0 < (1 - unit_roundoff) ^ j'" "0 \<le> (1 + unit_roundoff) ^ i"
    using unit_roundoff_range by simp_all
  ultimately show ?thesis
    by (intro frac_le) simp_all
qed

lemma close_to_weaken:
  assumes "close_to i j x y" and "0 \<le> y" and "i \<le> i'" and "j \<le> j'"
  shows "close_to i' j' x y"
proof -
  have "y * ((1 - unit_roundoff) ^ i' / (1 + unit_roundoff) ^ j')
          \<le> y * ((1 - unit_roundoff) ^ i / (1 + unit_roundoff) ^ j)"
    using assms(2) low_factor_mono [OF assms(3,4)] by (rule mult_left_mono [rotated])
  moreover have "y * ((1 + unit_roundoff) ^ i / (1 - unit_roundoff) ^ j)
          \<le> y * ((1 + unit_roundoff) ^ i' / (1 - unit_roundoff) ^ j')"
    using assms(2) high_factor_mono [OF assms(3,4)] by (rule mult_left_mono [rotated])
  ultimately show ?thesis
    using assms(1) by (simp add: close_to_def)
qed

lemma close_to_add:
  assumes "close_to i j x1 y1" and "close_to i j x2 y2"
  shows "close_to i j (x1 + x2) (y1 + y2)"
  using assms by (simp add: close_to_def distrib_right add_divide_distrib add_mono)

lemma close_to_scale:
  assumes "close_to i j x y" and "0 \<le> c"
  shows "close_to i j (c * x) (c * y)"
proof -
  from assms(1) have l: "y * (1 - unit_roundoff) ^ i / (1 + unit_roundoff) ^ j \<le> x"
    and h: "x \<le> y * (1 + unit_roundoff) ^ i / (1 - unit_roundoff) ^ j"
    by (simp_all add: close_to_def)
  have "c * (y * (1 - unit_roundoff) ^ i / (1 + unit_roundoff) ^ j) \<le> c * x"
    using l assms(2) by (rule mult_left_mono)
  moreover have "c * x \<le> c * (y * (1 + unit_roundoff) ^ i / (1 - unit_roundoff) ^ j)"
    using h assms(2) by (rule mult_left_mono)
  ultimately show ?thesis
    by (simp add: close_to_def mult.assoc)
qed

lemma close_to_round:
  assumes "close_to i j x y" and "x / (1 + unit_roundoff) \<le> r" and "r \<le> x / (1 - unit_roundoff)"
  shows "close_to i (Suc j) r y"
proof -
  have u: "0 \<le> 1 + unit_roundoff" "0 \<le> 1 - unit_roundoff"
    using unit_roundoff_range by simp_all
  from assms(1) have l: "y * (1 - unit_roundoff) ^ i / (1 + unit_roundoff) ^ j \<le> x"
    and h: "x \<le> y * (1 + unit_roundoff) ^ i / (1 - unit_roundoff) ^ j"
    by (simp_all add: close_to_def)
  have "y * (1 - unit_roundoff) ^ i / (1 + unit_roundoff) ^ j / (1 + unit_roundoff)
      \<le> x / (1 + unit_roundoff)"
    using l u(1) by (rule divide_right_mono)
  with assms(2) have "y * (1 - unit_roundoff) ^ i / (1 + unit_roundoff) ^ j / (1 + unit_roundoff) \<le> r"
    by linarith
  then have low: "y * (1 - unit_roundoff) ^ i / (1 + unit_roundoff) ^ Suc j \<le> r"
    by (simp add: mult.commute)
  have "x / (1 - unit_roundoff)
      \<le> y * (1 + unit_roundoff) ^ i / (1 - unit_roundoff) ^ j / (1 - unit_roundoff)"
    using h u(2) by (rule divide_right_mono)
  with assms(3) have "r \<le> y * (1 + unit_roundoff) ^ i / (1 - unit_roundoff) ^ j / (1 - unit_roundoff)"
    by linarith
  then have high: "r \<le> y * (1 + unit_roundoff) ^ i / (1 - unit_roundoff) ^ Suc j"
    by (simp add: mult.commute)
  from low high show ?thesis
    by (simp add: close_to_def)
qed

lemma close_to_divide:
  assumes x: "close_to i j x y" and t: "close_to 0 n t T" and "0 < T" and "0 \<le> y"
  shows "close_to (i + n) j (x / t) (y / T)"
proof -
  have u: "0 < 1 + unit_roundoff" "0 < 1 - unit_roundoff"
    using unit_roundoff_range by simp_all
  have tpos: "0 < t"
    using t assms(3) by (rule close_to_positive)
  from t have tl: "T / (1 + unit_roundoff) ^ n \<le> t" and th: "t \<le> T / (1 - unit_roundoff) ^ n"
    by (simp_all add: close_to_def)
  from x have xl: "y * (1 - unit_roundoff) ^ i / (1 + unit_roundoff) ^ j \<le> x"
    and xh: "x \<le> y * (1 + unit_roundoff) ^ i / (1 - unit_roundoff) ^ j"
    by (simp_all add: close_to_def)
  have x0: "0 \<le> x"
  proof -
    have "0 \<le> y * ((1 - unit_roundoff) ^ i / (1 + unit_roundoff) ^ j)"
      using assms(4) low_factor_range(1) [of i j] by (intro mult_nonneg_nonneg) simp_all
    with xl show ?thesis by simp
  qed
  have lowT: "0 < T / (1 + unit_roundoff) ^ n"
    using assms(3) u by simp
  have highT: "0 < T / (1 - unit_roundoff) ^ n"
    using assms(3) u by simp
  have "x / t \<le> x / (T / (1 + unit_roundoff) ^ n)"
    using tl x0 mult_pos_pos [OF tpos lowT] by (rule divide_left_mono)
  also have "\<dots> \<le> (y * (1 + unit_roundoff) ^ i / (1 - unit_roundoff) ^ j) / (T / (1 + unit_roundoff) ^ n)"
    using xh less_imp_le [OF lowT] by (rule divide_right_mono)
  also have "\<dots> = y / T * (1 + unit_roundoff) ^ (i + n) / (1 - unit_roundoff) ^ j"
    by (simp add: power_add mult_ac)
  finally have high: "x / t \<le> y / T * (1 + unit_roundoff) ^ (i + n) / (1 - unit_roundoff) ^ j" .
  have "y / T * (1 - unit_roundoff) ^ (i + n) / (1 + unit_roundoff) ^ j
          = (y * (1 - unit_roundoff) ^ i / (1 + unit_roundoff) ^ j) / (T / (1 - unit_roundoff) ^ n)"
    by (simp add: power_add mult_ac)
  also have "\<dots> \<le> x / (T / (1 - unit_roundoff) ^ n)"
    using xl less_imp_le [OF highT] by (rule divide_right_mono)
  also have "\<dots> \<le> x / t"
    using th x0 mult_pos_pos [OF highT tpos] by (rule divide_left_mono)
  finally have low: "y / T * (1 - unit_roundoff) ^ (i + n) / (1 + unit_roundoff) ^ j \<le> x / t" .
  from low high show ?thesis
    by (simp add: close_to_def)
qed

lemma positive_normal_round:
  assumes "positive_normal (round64 x)" and "0 < x"
  shows "\<exists>r. round64 x = Fin r \<and> x / (1 + unit_roundoff) \<le> r \<and> r \<le> x / (1 - unit_roundoff)"
proof -
  from assms(1) obtain r where r: "round64 x = Fin r" "2 powr (- 1022) \<le> r"
    by (auto simp: positive_normal_def split: number.splits)
  with round64_bounds [OF assms(2) r] show ?thesis by simp
qed

lemma positive_normal_close_to:
  assumes "positive_normal (round64 x)" and "close_to i j x y" and "0 < y"
  shows "\<exists>r. round64 x = Fin r \<and> close_to i (Suc j) r y"
proof -
  have "0 < x"
    using assms(2,3) by (rule close_to_positive)
  with assms(1) obtain r where "round64 x = Fin r"
      "x / (1 + unit_roundoff) \<le> r" "r \<le> x / (1 - unit_roundoff)"
    using positive_normal_round by blast
  with assms(2) show ?thesis
    using close_to_round by blast
qed

lemma twice_PI64: "round64 (2 * PI64) = Fin (2 * PI64)"
  by (rule round64_eval [where e = "- 50" and k = 7074237752028440])
     (simp_all add: PI64_def round_even_def Let_def powr_neg_numeral)

lemma circumference64_value: "circumference64 = Fin (32 * PI64)"
proof -
  have "round64 (2 * PI64 * 16) = Fin (32 * PI64)"
    by (rule round64_eval [where e = "- 46" and k = 7074237752028440])
       (simp_all add: PI64_def round_even_def Let_def powr_neg_numeral)
  then show ?thesis
    by (simp add: circumference64_def radius_def twice_PI64)
qed

lemma totalPercentage64_snoc:
  "totalPercentage64 (xs @ [x]) = add64 (totalPercentage64 xs) (quantity x)"
  by (simp add: totalPercentage64_def)

lemma sum_list_take_nonneg:
  assumes "\<forall>q\<in>set qs. 0 < q"
  shows "0 \<le> sum_list (take k (qs :: real list))"
proof (rule sum_list_nonneg)
  fix x
  assume "x \<in> set (take k qs)"
  then have "x \<in> set qs" by (rule in_set_takeD)
  with assms show "0 \<le> x" by (simp add: less_imp_le)
qed

lemma totalPercentage64_prefix:
  assumes q: "map quantity data = map Fin qs" and pos: "\<forall>q\<in>set qs. 0 < q"
    and range: "totals_in_range data"
  shows "k \<le> length data \<Longrightarrow>
         \<exists>t. totalPercentage64 (take k data) = Fin t \<and> close_to 0 k t (sum_list (take k qs))"
proof (induction k)
  case 0
  show ?case
    by (simp add: totalPercentage64_def close_to_def)
next
  case (Suc k)
  from q have len: "length qs = length data"
    by (metis length_map)
  from Suc.prems have k: "k < length data" by simp
  then obtain t where t: "totalPercentage64 (take k data) = Fin t"
      and close: "close_to 0 k t (sum_list (take k qs))"
    using Suc.IH by auto
  from q k have qk: "quantity (data ! k) = Fin (qs ! k)"
    by (metis len nth_map)
  from pos k len have qpos: "0 < qs ! k"
    by simp
  have T0: "0 \<le> sum_list (take k qs)"
    using pos by (rule sum_list_take_nonneg)
  have step: "totalPercentage64 (take (Suc k) data) = round64 (t + qs ! k)"
    using k by (simp add: take_Suc_conv_app_nth totalPercentage64_snoc t qk)
  have "Suc k \<in> set [1..<Suc (length data)]"
    using k by auto
  with range have normal: "positive_normal (round64 (t + qs ! k))"
    unfolding totals_in_range_def step [symmetric] by blast
  have q0: "0 \<le> qs ! k"
    using qpos by simp
  have "close_to 0 k (qs ! k) (qs ! k)"
    by (rule close_to_weaken [OF close_to_refl [OF q0] q0]) simp_all
  with close have sum: "close_to 0 k (t + qs ! k) (sum_list (take k qs) + qs ! k)"
    by (rule close_to_add)
  have "0 < sum_list (take k qs) + qs ! k"
    using T0 qpos by simp
  with normal sum obtain r where "round64 (t + qs ! k) = Fin r"
      and "close_to 0 (Suc k) r (sum_list (take k qs) + qs ! k)"
    using positive_normal_close_to by blast
  moreover have "sum_list (take (Suc k) qs) = sum_list (take k qs) + qs ! k"
    using k len by (simp add: take_Suc_conv_app_nth)
  ultimately show ?case
    using step by simp
qed

lemma totalPercentage64_close:
  assumes "map quantity data = map Fin qs" and "\<forall>q\<in>set qs. 0 < q" and "totals_in_range data"
  shows "\<exists>t. totalPercentage64 data = Fin t \<and> close_to 0 (length qs) t (sum_list qs)"
proof -
  from assms(1) have len: "length qs = length data"
    by (metis length_map)
  from totalPercentage64_prefix [OF assms, of "length data"] show ?thesis
    by (simp add: len)
qed

lemma product_close:
  assumes "positive_normal (mul64 (Fin a) (Fin b))" and "close_to i j b y" and "0 < a" and "0 < y"
  shows "\<exists>r. mul64 (Fin a) (Fin b) = Fin r \<and> close_to i (Suc j) r (a * y)"
proof -
  have "close_to i j (a * b) (a * y)"
    using assms(2,3) by (intro close_to_scale) simp_all
  moreover have "0 < a * y"
    using assms(3,4) by simp
  ultimately show ?thesis
    using assms(1) positive_normal_close_to [of "a * b" i j "a * y"] by simp
qed

lemma product_close_left:
  assumes "positive_normal (mul64 (Fin b) (Fin a))" and "close_to i j b y" and "0 < a" and "0 < y"
  shows "\<exists>r. mul64 (Fin b) (Fin a) = Fin r \<and> close_to i (Suc j) r (y * a)"
proof -
  have "close_to i j (a * b) (a * y)"
    using assms(2,3) by (intro close_to_scale) simp_all
  moreover have "0 < a * y"
    using assms(3,4) by simp
  ultimately show ?thesis
    using assms(1) positive_normal_close_to [of "a * b" i j "a * y"] by (simp add: mult.commute)
qed

lemma quotient_const_close:
  assumes "positive_normal (div64 (Fin b) (Fin a))" and "close_to i j b y" and "0 < a" and "0 < y"
  shows "\<exists>r. div64 (Fin b) (Fin a) = Fin r \<and> close_to i (Suc j) r (y / a)"
proof -
  have "close_to i j (1 / a * b) (1 / a * y)"
    using assms(2,3) by (intro close_to_scale) simp_all
  then have "close_to i j (b / a) (y / a)"
    by simp
  moreover have "0 < y / a"
    using assms(3,4) by simp
  ultimately show ?thesis
    using assms(1,3) positive_normal_close_to [of "b / a" i j "y / a"] by simp
qed

lemma quotient_close:
  assumes "positive_normal (div64 (Fin b) (Fin t))" and "close_to i j b y" and "close_to 0 n t T"
    and "0 < T" and "0 < y"
  shows "\<exists>r. div64 (Fin b) (Fin t) = Fin r \<and> close_to (i + n) (Suc j) r (y / T)"
proof -
  have tpos: "0 < t"
    using assms(3,4) by (rule close_to_positive)
  have "close_to (i + n) j (b / t) (y / T)"
    using assms(2,3,4) assms(5) by (intro close_to_divide) simp_all
  moreover have "0 < y / T"
    using assms(4,5) by simp
  ultimately show ?thesis
    using assms(1) tpos positive_normal_close_to [of "b / t" "i + n" j "y / T"] by simp
qed

lemma close_to_zero: "close_to i j 0 0"
  by (simp add: close_to_def)

lemma PI64_positive: "0 < 32 * PI64"
  by (simp add: PI64_def)

lemma getSinglePercentage64_close:
  assumes t: "totalPercentage64 data = Fin t" "close_to 0 n t T" "0 < T"
    and q: "0 < q"
    and range: "positive_normal (mul64 (Fin q) (Fin 100))"
      "positive_normal (getSinglePercentage64 data (Fin q))"
  shows "\<exists>p. getSinglePercentage64 data (Fin q) = Fin p \<and> close_to n 2 p (q * 100 / T)"
proof -
  have "close_to 0 0 100 100"
    by (rule close_to_refl) simp
  with range(1) q obtain m where m: "mul64 (Fin q) (Fin 100) = Fin m" "close_to 0 (Suc 0) m (q * 100)"
    using product_close [of q 100 0 0 100] by auto
  have gsp: "getSinglePercentage64 data (Fin q) = div64 (Fin m) (Fin t)"
    by (simp only: getSinglePercentage64_def m t)
  have "0 < q * 100" using q by simp
  with range(2) m(2) t(2,3) obtain p where "div64 (Fin m) (Fin t) = Fin p"
      "close_to (0 + n) (Suc (Suc 0)) p (q * 100 / T)"
    unfolding gsp using quotient_close [of m t 0 "Suc 0" "q * 100" n T] by blast
  with gsp show ?thesis
    by (simp add: numeral_2_eq_2)
qed

lemma getSlice64_close:
  assumes p: "getSinglePercentage64 data (Fin q) = Fin p" "close_to i j p y" "0 < y"
    and range: "positive_normal (mul64 circumference64 (getSinglePercentage64 data (Fin q)))"
      "positive_normal (getSlice64 data (Fin q))"
  shows "\<exists>s. getSlice64 data (Fin q) = Fin s \<and> close_to i (Suc (Suc j)) s (32 * PI64 * y / 100)"
proof -
  from range(1) p(2,3) obtain cp where cp: "mul64 (Fin (32 * PI64)) (Fin p) = Fin cp"
      "close_to i (Suc j) cp (32 * PI64 * y)"
    unfolding p(1) circumference64_value
    using product_close [of "32 * PI64" p i j y] PI64_positive by blast
  have slice: "getSlice64 data (Fin q) = div64 (Fin cp) (Fin 100)"
    by (simp only: getSlice64_def p(1) circumference64_value cp)
  have "0 < 32 * PI64 * y"
    using PI64_positive p(3) by simp
  with range(2) cp(2) obtain s where "div64 (Fin cp) (Fin 100) = Fin s"
      "close_to i (Suc (Suc j)) s (32 * PI64 * y / 100)"
    unfolding slice using quotient_const_close [of cp 100 i "Suc j" "32 * PI64 * y"] by auto
  with slice show ?thesis by simp
qed

lemma slices64_sum_close:
  assumes t: "totalPercentage64 data = Fin t" "close_to 0 n t T" "0 < T"
    and range: "slices_in_range data"
  shows "set ds \<subseteq> set data \<Longrightarrow> map quantity ds = map Fin rs \<Longrightarrow> \<forall>r\<in>set rs. 0 < r \<Longrightarrow>
         \<exists>ss ps. map (\<lambda>d. getSlice64 data (quantity d)) ds = map Fin ss \<and>
                 map (\<lambda>d. getSinglePercentage64 data (quantity d)) ds = map Fin ps \<and>
                 close_to 0 2 (sum_list ss) (32 * PI64 * sum_list ps / 100) \<and>
                 close_to n 2 (sum_list ps) (sum_list rs * 100 / T) \<and>
                 close_to n 4 (sum_list ss) (32 * PI64 * (sum_list rs * 100 / T) / 100)"
proof (induction ds arbitrary: rs)
  case Nil
  then show ?case
    by (simp add: close_to_zero)
next
  case (Cons d ds)
  from Cons.prems(2) obtain r rs' where rs: "rs = r # rs'" "quantity d = Fin r"
      "map quantity ds = map Fin rs'"
    by (cases rs) auto
  from Cons.prems(3) rs(1) have r: "0 < r" and rs': "\<forall>r\<in>set rs'. 0 < r"
    by simp_all
  from Cons.prems(1) have d: "d \<in> set data" and ds: "set ds \<subseteq> set data"
    by simp_all
  from range d rs(2) have normal:
    "positive_normal (mul64 (Fin r) (Fin 100))"
    "positive_normal (getSinglePercentage64 data (Fin r))"
    "positive_normal (mul64 circumference64 (getSinglePercentage64 data (Fin r)))"
    "positive_normal (getSlice64 data (Fin r))"
    unfolding slices_in_range_def by force+
  obtain p where p: "getSinglePercentage64 data (Fin r) = Fin p" "close_to n 2 p (r * 100 / T)"
    using getSinglePercentage64_close [OF t r normal(1,2)] by blast
  have y: "0 < r * 100 / T"
    using r t(3) by simp
  have ppos: "0 < p"
    using p(2) y by (rule close_to_positive)
  obtain s where s: "getSlice64 data (Fin r) = Fin s"
      "close_to n (Suc (Suc 2)) s (32 * PI64 * (r * 100 / T) / 100)"
    using getSlice64_close [OF p y normal(3,4)] by blast
  have "close_to 0 0 p p"
    using ppos by (intro close_to_refl) simp
  then obtain s' where "getSlice64 data (Fin r) = Fin s'"
      "close_to 0 (Suc (Suc 0)) s' (32 * PI64 * p / 100)"
    using getSlice64_close [OF p(1) _ ppos normal(3,4)] by blast
  with s(1) have s2: "close_to 0 2 s (32 * PI64 * p / 100)"
    by (simp add: numeral_2_eq_2)
  from s(2) have s4: "close_to n 4 s (32 * PI64 * (r * 100 / T) / 100)"
    by (simp add: numeral_eq_Suc)
  obtain ss ps where IH: "map (\<lambda>d. getSlice64 data (quantity d)) ds = map Fin ss"
      "map (\<lambda>d. getSinglePercentage64 data (quantity d)) ds = map Fin ps"
      "close_to 0 2 (sum_list ss) (32 * PI64 * sum_list ps / 100)"
      "close_to n 2 (sum_list ps) (sum_list rs' * 100 / T)"
      "close_to n 4 (sum_list ss) (32 * PI64 * (sum_list rs' * 100 / T) / 100)"
    using Cons.IH [OF ds rs(3) rs'] by blast
  have a: "map (\<lambda>d. getSlice64 data (quantity d)) (d # ds) = map Fin (s # ss)"
    by (simp add: rs(2) s(1) IH(1))
  have b: "map (\<lambda>d. getSinglePercentage64 data (quantity d)) (d # ds) = map Fin (p # ps)"
    by (simp add: rs(2) p(1) IH(2))
  have c: "close_to 0 2 (sum_list (s # ss)) (32 * PI64 * sum_list (p # ps) / 100)"
    using close_to_add [OF s2 IH(3)] by (simp add: algebra_simps add_divide_distrib)
  have e: "close_to n 2 (sum_list (p # ps)) (sum_list rs * 100 / T)"
    using close_to_add [OF p(2) IH(4)] by (simp add: rs(1) algebra_simps add_divide_distrib)
  have f: "close_to n 4 (sum_list (s # ss)) (32 * PI64 * (sum_list rs * 100 / T) / 100)"
    using close_to_add [OF s4 IH(5)] by (simp add: rs(1) algebra_simps add_divide_distrib)
  from a b c e f show ?case by blast
qed

lemma slices64_close:
  assumes "map quantity data = map Fin qs" and "qs \<noteq> []" and "\<forall>q\<in>set qs. 0 < q"
    and "totals_in_range data" and "slices_in_range data"
  shows "\<exists>ss ps. map (\<lambda>d. getSlice64 data (quantity d)) data = map Fin ss \<and>
                 map (\<lambda>d. getSinglePercentage64 data (quantity d)) data = map Fin ps \<and>
                 circumference64 = Fin (32 * PI64) \<and>
                 close_to 0 2 (sum_list ss) (32 * PI64 * sum_list ps / 100) \<and>
                 close_to (length data) 2 (sum_list ps) 100 \<and>
                 close_to (length data) 4 (sum_list ss) (32 * PI64)"
proof -
  from assms(1) have len: "length qs = length data"
    by (metis length_map)
  obtain t where t: "totalPercentage64 data = Fin t" "close_to 0 (length data) t (sum_list qs)"
    using totalPercentage64_close [OF assms(1,3,4)] len by auto
  have T: "0 < sum_list qs"
    using assms(2,3) by (rule sum_list_positive)
  obtain ss ps where r: "map (\<lambda>d. getSlice64 data (quantity d)) data = map Fin ss"
      "map (\<lambda>d. getSinglePercentage64 data (quantity d)) data = map Fin ps"
      "close_to 0 2 (sum_list ss) (32 * PI64 * sum_list ps / 100)"
      "close_to (length data) 2 (sum_list ps) (sum_list qs * 100 / sum_list qs)"
      "close_to (length data) 4 (sum_list ss) (32 * PI64 * (sum_list qs * 100 / sum_list qs) / 100)"
    using slices64_sum_close [OF t T assms(5) subset_refl assms(1,3)] by blast
  from T r(4,5) have "close_to (length data) 2 (sum_list ps) 100"
    and "close_to (length data) 4 (sum_list ss) (32 * PI64)"
    by simp_all
  with r(1,2,3) circumference64_value show ?thesis by blast
qed

section \<open>The loop of \<open>getRotate\<close> in binary64 arithmetic\<close>

lemma getRotate64_loop_fold:
  "counter \<le> i \<Longrightarrow> i \<le> length data \<Longrightarrow>
   getRotate64_loop data (int i) angle counter
     = Inr (foldl (\<lambda>angle d.
              add64 angle
                (mul64 (div64 (getSinglePercentage64 data (quantity d)) (Fin 100)) (Fin 360)))
            angle (drop counter (take i data)))"
proof (induction "i - counter" arbitrary: counter angle)
  case 0
  then show ?case
    by (subst getRotate64_loop.simps) simp
next
  case (Suc n)
  from Suc.hyps(2) Suc.prems have lt: "counter < i" "counter < length data"
    by simp_all
  from lt have "counter < length (take i data)" by simp
  then have "drop counter (take i data) = take i data ! counter # drop (Suc counter) (take i data)"
    by (rule Cons_nth_drop_Suc [symmetric])
  with lt have split: "drop counter (take i data) = data ! counter # drop (Suc counter) (take i data)"
    by simp
  from Suc.hyps(2) have n: "n = i - Suc counter" by simp
  have less: "Suc counter \<le> i" using lt by simp
  have "getRotate64_loop data (int i) angle counter
          = getRotate64_loop data (int i)
              (add64 angle
                (mul64 (div64 (getSinglePercentage64 data (quantity (data ! counter))) (Fin 100))
                   (Fin 360)))
              (Suc counter)"
    using lt by (subst getRotate64_loop.simps) simp
  also note Suc.hyps(1) [OF n less Suc.prems(2)]
  finally show ?case
    by (simp only: split foldl_Cons)
qed

lemma getRotate64_fold:
  "i \<le> length data \<Longrightarrow> getRotate64 data (int i) = Inr (cumulativeRotation64 i data)"
  unfolding getRotate64_def cumulativeRotation64_def
  using getRotate64_loop_fold [of 0 i data "Fin 0"] by simp

lemma cumulativeRotation64_Suc:
  "k < length data \<Longrightarrow>
   cumulativeRotation64 (Suc k) data
     = add64 (cumulativeRotation64 k data)
         (mul64 (div64 (getSinglePercentage64 data (quantity (data ! k))) (Fin 100)) (Fin 360))"
  by (simp add: cumulativeRotation64_def take_Suc_conv_app_nth)

lemma term64_close:
  assumes t: "totalPercentage64 data = Fin t" "close_to 0 n t T" "0 < T"
    and q: "0 < q"
    and range: "positive_normal (mul64 (Fin q) (Fin 100))"
      "positive_normal (getSinglePercentage64 data (Fin q))"
      "positive_normal (div64 (getSinglePercentage64 data (Fin q)) (Fin 100))"
      "positive_normal (mul64 (div64 (getSinglePercentage64 data (Fin q)) (Fin 100)) (Fin 360))"
  shows "\<exists>r. mul64 (div64 (getSinglePercentage64 data (Fin q)) (Fin 100)) (Fin 360) = Fin r \<and>
             close_to n 4 r (360 * q / T)"
proof -
  obtain p where p: "getSinglePercentage64 data (Fin q) = Fin p" "close_to n 2 p (q * 100 / T)"
    using getSinglePercentage64_close [OF t q range(1,2)] by blast
  have y: "0 < q * 100 / T"
    using q t(3) by simp
  from range(3) p(2) y obtain d where d: "div64 (Fin p) (Fin 100) = Fin d"
      "close_to n (Suc 2) d (q * 100 / T / 100)"
    unfolding p(1) using quotient_const_close [of p 100 n 2 "q * 100 / T"] by auto
  have y': "0 < q * 100 / T / 100"
    using q t(3) by simp
  from range(4) d(2) y' obtain r where r: "mul64 (Fin d) (Fin 360) = Fin r"
      "close_to n (Suc (Suc 2)) r (q * 100 / T / 100 * 360)"
    unfolding p(1) d(1) using product_close_left [of d 360 n "Suc 2" "q * 100 / T / 100"] by auto
  have "mul64 (div64 (getSinglePercentage64 data (Fin q)) (Fin 100)) (Fin 360) = Fin r"
    by (simp only: p(1) d(1) r(1))
  moreover have "close_to n 4 r (360 * q / T)"
    using r(2) by (simp add: numeral_eq_Suc mult.commute)
  ultimately show ?thesis by blast
qed

lemma cumulativeRotation64_close:
  assumes q: "map quantity data = map Fin qs" and pos: "\<forall>q\<in>set qs. 0 < q"
    and t: "totalPercentage64 data = Fin t" "close_to 0 n t T" "0 < T"
    and range: "rotation_in_range data"
  shows "k \<le> length data \<Longrightarrow>
         \<exists>a. cumulativeRotation64 k data = Fin a \<and> on_grid a \<and>
             close_to n (4 + k) a (360 * sum_list (take k qs) / T)"
proof (induction k)
  case 0
  have "on_grid 0"
    unfolding on_grid_def by (intro exI [of _ 0]) simp
  then show ?case
    by (simp add: cumulativeRotation64_def close_to_zero)
next
  case (Suc k)
  from q have len: "length qs = length data"
    by (metis length_map)
  from Suc.prems have k: "k < length data" by simp
  then obtain a where a: "cumulativeRotation64 k data = Fin a" "on_grid a"
      "close_to n (4 + k) a (360 * sum_list (take k qs) / T)"
    using Suc.IH by auto
  from q k have qk: "quantity (data ! k) = Fin (qs ! k)"
    by (metis len nth_map)
  from pos k len have qpos: "0 < qs ! k"
    by simp
  have mem: "data ! k \<in> set data"
    using k by simp
  from range mem qk have normal:
    "positive_normal (mul64 (Fin (qs ! k)) (Fin 100))"
    "positive_normal (getSinglePercentage64 data (Fin (qs ! k)))"
    "positive_normal (div64 (getSinglePercentage64 data (Fin (qs ! k))) (Fin 100))"
    "positive_normal (mul64 (div64 (getSinglePercentage64 data (Fin (qs ! k))) (Fin 100)) (Fin 360))"
    unfolding rotation_in_range_def by force+
  obtain r where r: "mul64 (div64 (getSinglePercentage64 data (Fin (qs ! k))) (Fin 100)) (Fin 360) = Fin r"
      "close_to n 4 r (360 * qs ! k / T)"
    using term64_close [OF t qpos normal] by blast
  have step: "cumulativeRotation64 (Suc k) data = round64 (a + r)"
    by (simp add: cumulativeRotation64_Suc [OF k] a(1) qk r(1))
  have "Suc k \<in> set [1..<Suc (length data)]"
    using k by auto
  with range have "case getRotate64 data (int (Suc k)) of Inl e \<Rightarrow> False | Inr angle \<Rightarrow> positive_normal angle"
    unfolding rotation_in_range_def by blast
  then have normal_sum: "positive_normal (round64 (a + r))"
    unfolding getRotate64_fold [OF Suc.prems] step by simp
  have T0: "0 \<le> sum_list (take k qs)"
    using pos by (rule sum_list_take_nonneg)
  have y0: "0 \<le> 360 * sum_list (take k qs) / T" "0 \<le> 360 * qs ! k / T"
    using T0 qpos t(3) by simp_all
  have "close_to n (4 + k) r (360 * qs ! k / T)"
    by (rule close_to_weaken [OF r(2) y0(2)]) simp_all
  with a(3) have sum: "close_to n (4 + k) (a + r)
      (360 * sum_list (take k qs) / T + 360 * qs ! k / T)"
    by (rule close_to_add)
  have ypos: "0 < 360 * sum_list (take k qs) / T + 360 * qs ! k / T"
    using T0 qpos t(3) by (intro add_nonneg_pos) simp_all
  with normal_sum sum obtain b where b: "round64 (a + r) = Fin b"
      "close_to n (Suc (4 + k)) b (360 * sum_list (take k qs) / T + 360 * qs ! k / T)"
    using positive_normal_close_to by blast
  have rpos: "0 < r"
    using r(2) qpos t(3) by (intro close_to_positive [of n 4 r "360 * qs ! k / T"]) simp_all
  have a0: "0 \<le> a"
    using a(2) by (auto simp: on_grid_def)
  have grid: "on_grid b"
    using a0 rpos b(1) by (intro round64_on_grid [of "a + r"]) simp_all
  have "sum_list (take (Suc k) qs) = sum_list (take k qs) + qs ! k"
    using k len by (simp add: take_Suc_conv_app_nth)
  then have "360 * sum_list (take (Suc k) qs) / T
               = 360 * sum_list (take k qs) / T + 360 * qs ! k / T"
    by (simp add: algebra_simps add_divide_distrib)
  with b grid step show ?case
    by simp
qed

lemma cumulativeRotation64_step_mono:
  assumes "cumulativeRotation64 k data = Fin a" and "on_grid a"
    and "cumulativeRotation64 (Suc k) data = Fin b" and "k < length data"
    and "mul64 (div64 (getSinglePercentage64 data (quantity (data ! k))) (Fin 100)) (Fin 360) = Fin r"
    and "0 \<le> r"
  shows "a \<le> b"
proof -
  from assms(1,3,5) have "round64 (a + r) = Fin b"
    by (simp add: cumulativeRotation64_Suc [OF assms(4)])
  with assms(2,6) show ?thesis
    by (intro round64_ge [of a "a + r" b]) simp_all
qed

lemma cumulativeRotation64_quantities:
  "cumulativeRotation64 index data =
     foldl (\<lambda>angle q.
              add64 angle (mul64 (div64 (getSinglePercentage64 data q) (Fin 100)) (Fin 360)))
       (Fin 0) (take index (map quantity data))"
  by (simp add: cumulativeRotation64_def take_map foldl_map)

section \<open>The operations of the examples\<close>

text \<open>
  Every operation that the chart performs on the example data, with its rounded
  result.
\<close>

lemma step64_0: "add64 (Fin (0)) (Fin (1)) = Fin (1)"
  by (simp, rule round64_eval [where e = "- 52" and k = 4503599627370496])
     (simp_all add: round_even_def Let_def powr_neg_numeral)

lemma step64_1: "add64 (Fin (1)) (Fin (1)) = Fin (2)"
  by (simp, rule round64_eval [where e = "- 51" and k = 4503599627370496])
     (simp_all add: round_even_def Let_def powr_neg_numeral)

lemma step64_2: "add64 (Fin (2)) (Fin (1)) = Fin (3)"
  by (simp, rule round64_eval [where e = "- 51" and k = 6755399441055744])
     (simp_all add: round_even_def Let_def powr_neg_numeral)

lemma step64_3: "mul64 (Fin (1)) (Fin (100)) = Fin (100)"
  by (simp, rule round64_eval [where e = "- 46" and k = 7036874417766400])
     (simp_all add: round_even_def Let_def powr_neg_numeral)

lemma step64_4: "div64 (Fin (100)) (Fin (3)) = Fin (4691249611844267 / 140737488355328)"
  by (simp, rule round64_eval [where e = "- 47" and k = 4691249611844267])
     (simp_all add: round_even_def Let_def powr_neg_numeral)

lemma step64_5: "mul64 (Fin (884279719003555 / 8796093022208)) (Fin (4691249611844267 / 140737488355328)) = Fin (7368997658362959 / 2199023255552)"
  by (simp, rule round64_eval [where e = "- 41" and k = 7368997658362959])
     (simp_all add: round_even_def Let_def powr_neg_numeral)

lemma step64_6: "div64 (Fin (7368997658362959 / 2199023255552)) (Fin (100)) = Fin (2358079250676147 / 70368744177664)"
  by (simp, rule round64_eval [where e = "- 47" and k = 4716158501352294])
     (simp_all add: round_even_def Let_def powr_neg_numeral)

lemma step64_7: "div64 (Fin (4691249611844267 / 140737488355328)) (Fin (100)) = Fin (3002399751580331 / 9007199254740992)"
  by (simp, rule round64_eval [where e = "- 54" and k = 6004799503160662])
     (simp_all add: round_even_def Let_def powr_neg_numeral)

lemma step64_8: "mul64 (Fin (3002399751580331 / 9007199254740992)) (Fin (360)) = Fin (8444249301319681 / 70368744177664)"
  by (simp, rule round64_eval [where e = "- 46" and k = 8444249301319681])
     (simp_all add: round_even_def Let_def powr_neg_numeral)

lemma step64_9: "add64 (Fin (0)) (Fin (8444249301319681 / 70368744177664)) = Fin (8444249301319681 / 70368744177664)"
  by (simp, rule round64_eval [where e = "- 46" and k = 8444249301319681])
     (simp_all add: round_even_def Let_def powr_neg_numeral)

lemma step64_10: "add64 (Fin (8444249301319681 / 70368744177664)) (Fin (8444249301319681 / 70368744177664)) = Fin (8444249301319681 / 35184372088832)"
  by (simp, rule round64_eval [where e = "- 45" and k = 8444249301319681])
     (simp_all add: round_even_def Let_def powr_neg_numeral)

lemma step64_11: "add64 (Fin (8444249301319681 / 35184372088832)) (Fin (8444249301319681 / 70368744177664)) = Fin (6333186975989761 / 17592186044416)"
  by (simp, rule round64_eval [where e = "- 44" and k = 6333186975989761])
     (simp_all add: round_even_def Let_def powr_neg_numeral)

lemma step64_12: "add64 (Fin (3)) (Fin (1)) = Fin (4)"
  by (simp, rule round64_eval [where e = "- 50" and k = 4503599627370496])
     (simp_all add: round_even_def Let_def powr_neg_numeral)

lemma step64_13: "div64 (Fin (100)) (Fin (4)) = Fin (25)"
  by (simp, rule round64_eval [where e = "- 48" and k = 7036874417766400])
     (simp_all add: round_even_def Let_def powr_neg_numeral)

lemma step64_14: "mul64 (Fin (884279719003555 / 8796093022208)) (Fin (25)) = Fin (5526748243772219 / 2199023255552)"
  by (simp, rule round64_eval [where e = "- 41" and k = 5526748243772219])
     (simp_all add: round_even_def Let_def powr_neg_numeral)

lemma step64_15: "div64 (Fin (5526748243772219 / 2199023255552)) (Fin (100)) = Fin (884279719003555 / 35184372088832)"
  by (simp, rule round64_eval [where e = "- 48" and k = 7074237752028440])
     (simp_all add: round_even_def Let_def powr_neg_numeral)

lemma step64_16: "div64 (Fin (25)) (Fin (100)) = Fin (1 / 4)"
  by (simp, rule round64_eval [where e = "- 54" and k = 4503599627370496])
     (simp_all add: round_even_def Let_def powr_neg_numeral)

lemma step64_17: "mul64 (Fin (1 / 4)) (Fin (360)) = Fin (90)"
  by (simp, rule round64_eval [where e = "- 46" and k = 6333186975989760])
     (simp_all add: round_even_def Let_def powr_neg_numeral)

lemma step64_18: "add64 (Fin (0)) (Fin (90)) = Fin (90)"
  by (simp, rule round64_eval [where e = "- 46" and k = 6333186975989760])
     (simp_all add: round_even_def Let_def powr_neg_numeral)

lemma step64_19: "add64 (Fin (90)) (Fin (90)) = Fin (180)"
  by (simp, rule round64_eval [where e = "- 45" and k = 6333186975989760])
     (simp_all add: round_even_def Let_def powr_neg_numeral)

lemma step64_20: "add64 (Fin (180)) (Fin (90)) = Fin (270)"
  by (simp, rule round64_eval [where e = "- 44" and k = 4749890231992320])
     (simp_all add: round_even_def Let_def powr_neg_numeral)

lemma step64_21: "add64 (Fin (270)) (Fin (90)) = Fin (360)"
  by (simp, rule round64_eval [where e = "- 44" and k = 6333186975989760])
     (simp_all add: round_even_def Let_def powr_neg_numeral)

lemma step64_22: "add64 (Fin (0)) (Fin (70)) = Fin (70)"
  by (simp, rule round64_eval [where e = "- 46" and k = 4925812092436480])
     (simp_all add: round_even_def Let_def powr_neg_numeral)

lemma step64_23: "add64 (Fin (70)) (Fin (10)) = Fin (80)"
  by (simp, rule round64_eval [where e = "- 46" and k = 5629499534213120])
     (simp_all add: round_even_def Let_def powr_neg_numeral)

lemma step64_24: "add64 (Fin (80)) (Fin (20)) = Fin (100)"
  by (simp, rule round64_eval [where e = "- 46" and k = 7036874417766400])
     (simp_all add: round_even_def Let_def powr_neg_numeral)

lemma step64_25: "mul64 (Fin (70)) (Fin (100)) = Fin (7000)"
  by (simp, rule round64_eval [where e = "- 40" and k = 7696581394432000])
     (simp_all add: round_even_def Let_def powr_neg_numeral)

lemma step64_26: "div64 (Fin (7000)) (Fin (100)) = Fin (70)"
  by (simp, rule round64_eval [where e = "- 46" and k = 4925812092436480])
     (simp_all add: round_even_def Let_def powr_neg_numeral)

lemma step64_27: "mul64 (Fin (884279719003555 / 8796093022208)) (Fin (70)) = Fin (3868723770640553 / 549755813888)"
  by (simp, rule round64_eval [where e = "- 40" and k = 7737447541281106])
     (simp_all add: round_even_def Let_def powr_neg_numeral)

lemma step64_28: "div64 (Fin (3868723770640553 / 549755813888)) (Fin (100)) = Fin (1237991606604977 / 17592186044416)"
  by (simp, rule round64_eval [where e = "- 46" and k = 4951966426419908])
     (simp_all add: round_even_def Let_def powr_neg_numeral)

lemma step64_29: "div64 (Fin (70)) (Fin (100)) = Fin (3152519739159347 / 4503599627370496)"
  by (simp, rule round64_eval [where e = "- 53" and k = 6305039478318694])
     (simp_all add: round_even_def Let_def powr_neg_numeral)

lemma step64_30: "mul64 (Fin (3152519739159347 / 4503599627370496)) (Fin (360)) = Fin (8866461766385663 / 35184372088832)"
  by (simp, rule round64_eval [where e = "- 45" and k = 8866461766385663])
     (simp_all add: round_even_def Let_def powr_neg_numeral)

lemma step64_31: "add64 (Fin (0)) (Fin (8866461766385663 / 35184372088832)) = Fin (8866461766385663 / 35184372088832)"
  by (simp, rule round64_eval [where e = "- 45" and k = 8866461766385663])
     (simp_all add: round_even_def Let_def powr_neg_numeral)

lemma step64_32: "mul64 (Fin (10)) (Fin (100)) = Fin (1000)"
  by (simp, rule round64_eval [where e = "- 43" and k = 8796093022208000])
     (simp_all add: round_even_def Let_def powr_neg_numeral)

lemma step64_33: "div64 (Fin (1000)) (Fin (100)) = Fin (10)"
  by (simp, rule round64_eval [where e = "- 49" and k = 5629499534213120])
     (simp_all add: round_even_def Let_def powr_neg_numeral)

lemma step64_34: "mul64 (Fin (884279719003555 / 8796093022208)) (Fin (10)) = Fin (4421398595017775 / 4398046511104)"
  by (simp, rule round64_eval [where e = "- 43" and k = 8842797190035550])
     (simp_all add: round_even_def Let_def powr_neg_numeral)

lemma step64_35: "div64 (Fin (4421398595017775 / 4398046511104)) (Fin (100)) = Fin (176855943800711 / 17592186044416)"
  by (simp, rule round64_eval [where e = "- 49" and k = 5659390201622752])
     (simp_all add: round_even_def Let_def powr_neg_numeral)

lemma step64_36: "div64 (Fin (10)) (Fin (100)) = Fin (3602879701896397 / 36028797018963968)"
  by (simp, rule round64_eval [where e = "- 56" and k = 7205759403792794])
     (simp_all add: round_even_def Let_def powr_neg_numeral)

lemma step64_37: "mul64 (Fin (3602879701896397 / 36028797018963968)) (Fin (360)) = Fin (36)"
  by (simp, rule round64_eval [where e = "- 47" and k = 5066549580791808])
     (simp_all add: round_even_def Let_def powr_neg_numeral)

lemma step64_38: "add64 (Fin (8866461766385663 / 35184372088832)) (Fin (36)) = Fin (288)"
  by (simp, rule round64_eval [where e = "- 44" and k = 5066549580791808])
     (simp_all add: round_even_def Let_def powr_neg_numeral)

lemma step64_39: "mul64 (Fin (20)) (Fin (100)) = Fin (2000)"
  by (simp, rule round64_eval [where e = "- 42" and k = 8796093022208000])
     (simp_all add: round_even_def Let_def powr_neg_numeral)

lemma step64_40: "div64 (Fin (2000)) (Fin (100)) = Fin (20)"
  by (simp, rule round64_eval [where e = "- 48" and k = 5629499534213120])
     (simp_all add: round_even_def Let_def powr_neg_numeral)

lemma step64_41: "mul64 (Fin (884279719003555 / 8796093022208)) (Fin (20)) = Fin (4421398595017775 / 2199023255552)"
  by (simp, rule round64_eval [where e = "- 42" and k = 8842797190035550])
     (simp_all add: round_even_def Let_def powr_neg_numeral)

lemma step64_42: "div64 (Fin (4421398595017775 / 2199023255552)) (Fin (100)) = Fin (176855943800711 / 8796093022208)"
  by (simp, rule round64_eval [where e = "- 48" and k = 5659390201622752])
     (simp_all add: round_even_def Let_def powr_neg_numeral)

lemma step64_43: "div64 (Fin (20)) (Fin (100)) = Fin (3602879701896397 / 18014398509481984)"
  by (simp, rule round64_eval [where e = "- 55" and k = 7205759403792794])
     (simp_all add: round_even_def Let_def powr_neg_numeral)

lemma step64_44: "mul64 (Fin (3602879701896397 / 18014398509481984)) (Fin (360)) = Fin (72)"
  by (simp, rule round64_eval [where e = "- 46" and k = 5066549580791808])
     (simp_all add: round_even_def Let_def powr_neg_numeral)

lemma step64_45: "add64 (Fin (288)) (Fin (72)) = Fin (360)"
  by (simp, rule round64_eval [where e = "- 44" and k = 6333186975989760])
     (simp_all add: round_even_def Let_def powr_neg_numeral)

lemma step64_46: "add64 (Fin (0)) (Fin (2358079250676147 / 70368744177664)) = Fin (2358079250676147 / 70368744177664)"
  by (simp, rule round64_eval [where e = "- 47" and k = 4716158501352294])
     (simp_all add: round_even_def Let_def powr_neg_numeral)

lemma step64_47: "add64 (Fin (2358079250676147 / 70368744177664)) (Fin (2358079250676147 / 70368744177664)) = Fin (2358079250676147 / 35184372088832)"
  by (simp, rule round64_eval [where e = "- 46" and k = 4716158501352294])
     (simp_all add: round_even_def Let_def powr_neg_numeral)

lemma step64_48: "add64 (Fin (2358079250676147 / 35184372088832)) (Fin (2358079250676147 / 70368744177664)) = Fin (7074237752028441 / 70368744177664)"
  by (simp, rule round64_eval [where e = "- 46" and k = 7074237752028441])
     (simp_all add: round_even_def Let_def powr_neg_numeral)

lemmas steps64 =
  step64_0 step64_1 step64_2 step64_3 step64_4 step64_5
  step64_6 step64_7 step64_8 step64_9 step64_10 step64_11
  step64_12 step64_13 step64_14 step64_15 step64_16 step64_17
  step64_18 step64_19 step64_20 step64_21 step64_22 step64_23
  step64_24 step64_25 step64_26 step64_27 step64_28 step64_29
  step64_30 step64_31 step64_32 step64_33 step64_34 step64_35
  step64_36 step64_37 step64_38 step64_39 step64_40 step64_41
  step64_42 step64_43 step64_44 step64_45 step64_46 step64_47
  step64_48

lemma circumference64_number: "circumference64 = Fin (884279719003555 / 8796093022208)"
  by (simp add: circumference64_value PI64_def)

lemma thirds_quantities:
  "map quantity thirds = [Fin 1, Fin 1, Fin 1]"
  "length thirds = 3"
  by (simp_all add: thirds_def)

lemma thirds_totals:
  "totalPercentage64 (take (Suc 0) thirds) = Fin 1"
  "totalPercentage64 (take 2 thirds) = Fin 2"
  "totalPercentage64 (take 3 thirds) = Fin 3"
  "totalPercentage64 thirds = Fin 3"
  by (simp_all add: totalPercentage64_def thirds_def steps64 del: add64.simps mul64.simps div64.simps)

lemma thirds_percentage:
  "mul64 (Fin 1) (Fin 100) = Fin 100"
  "getSinglePercentage64 thirds (Fin 1) = Fin (4691249611844267 / 140737488355328)"
  by (simp_all add: getSinglePercentage64_def thirds_totals steps64 del: add64.simps mul64.simps div64.simps)

lemma thirds_slice:
  "mul64 circumference64 (getSinglePercentage64 thirds (Fin 1)) = Fin (7368997658362959 / 2199023255552)"
  "getSlice64 thirds (Fin 1) = Fin (2358079250676147 / 70368744177664)"
  by (simp_all add: getSlice64_def thirds_percentage circumference64_number steps64 del: add64.simps mul64.simps div64.simps)

lemma thirds_term:
  "div64 (getSinglePercentage64 thirds (Fin 1)) (Fin 100) = Fin (3002399751580331 / 9007199254740992)"
  "mul64 (div64 (getSinglePercentage64 thirds (Fin 1)) (Fin 100)) (Fin 360) = Fin (8444249301319681 / 70368744177664)"
  by (simp_all add: thirds_percentage steps64 del: add64.simps mul64.simps div64.simps)

lemma thirds_rotation:
  "getRotate64 thirds 1 = Inr (Fin (8444249301319681 / 70368744177664))"
  "getRotate64 thirds 2 = Inr (Fin (8444249301319681 / 35184372088832))"
  "getRotate64 thirds 3 = Inr (Fin (6333186975989761 / 17592186044416))"
  using getRotate64_fold [of 1 thirds] getRotate64_fold [of 2 thirds] getRotate64_fold [of 3 thirds]
  by (simp_all add: cumulativeRotation64_quantities thirds_quantities thirds_term steps64 del: add64.simps mul64.simps div64.simps)

lemma thirds_prefixes: "set [1..<Suc (length thirds)] = {1, 2, 3}"
  by (auto simp: thirds_quantities)

lemma thirds_totals_in_range: "totals_in_range thirds"
  unfolding totals_in_range_def thirds_prefixes
  by (simp add: thirds_totals positive_normal_def powr_neg_numeral)

lemma thirds_entries: "d \<in> set thirds \<Longrightarrow> quantity d = Fin 1"
  by (auto simp: thirds_def)

lemma thirds_slices_in_range: "slices_in_range thirds"
  unfolding slices_in_range_def
proof
  fix d
  assume "d \<in> set thirds"
  then have "quantity d = Fin 1"
    by (rule thirds_entries)
  then show "positive_normal (mul64 (quantity d) (Fin 100)) \<and>
        positive_normal (getSinglePercentage64 thirds (quantity d)) \<and>
        positive_normal (mul64 circumference64 (getSinglePercentage64 thirds (quantity d))) \<and>
        positive_normal (getSlice64 thirds (quantity d))"
    by (simp_all add: thirds_percentage thirds_slice circumference64_number steps64
        positive_normal_def powr_neg_numeral del: add64.simps mul64.simps div64.simps)
qed

lemma thirds_rotation_in_range: "rotation_in_range thirds"
  unfolding rotation_in_range_def
proof (rule conjI)
  show "\<forall>d\<in>set thirds.
        positive_normal (mul64 (quantity d) (Fin 100)) \<and>
        positive_normal (getSinglePercentage64 thirds (quantity d)) \<and>
        positive_normal (div64 (getSinglePercentage64 thirds (quantity d)) (Fin 100)) \<and>
        positive_normal
          (mul64 (div64 (getSinglePercentage64 thirds (quantity d)) (Fin 100)) (Fin 360))"
  proof
    fix d
    assume "d \<in> set thirds"
    then have "quantity d = Fin 1"
      by (rule thirds_entries)
    then show "positive_normal (mul64 (quantity d) (Fin 100)) \<and>
        positive_normal (getSinglePercentage64 thirds (quantity d)) \<and>
        positive_normal (div64 (getSinglePercentage64 thirds (quantity d)) (Fin 100)) \<and>
        positive_normal
          (mul64 (div64 (getSinglePercentage64 thirds (quantity d)) (Fin 100)) (Fin 360))"
      by (simp_all add: thirds_percentage thirds_term steps64 positive_normal_def
          powr_neg_numeral del: add64.simps mul64.simps div64.simps)
  qed
next
  show "\<forall>k\<in>set [1..<Suc (length thirds)].
          (case getRotate64 thirds (int k) of Inl e \<Rightarrow> False | Inr angle \<Rightarrow> positive_normal angle)"
  proof
    fix k
    assume "k \<in> set [1..<Suc (length thirds)]"
    then have "k \<in> {1, 2, 3}"
      by (simp only: thirds_prefixes)
    then show "case getRotate64 thirds (int k) of Inl e \<Rightarrow> False | Inr angle \<Rightarrow> positive_normal angle"
      by (elim insertE emptyE) (simp_all add: thirds_rotation positive_normal_def powr_neg_numeral)
  qed
qed

lemma quarters_quantities:
  "map quantity quarters = [Fin 1, Fin 1, Fin 1, Fin 1]"
  "length quarters = 4"
  by (simp_all add: quarters_def)

lemma quarters_totals:
  "totalPercentage64 (take (Suc 0) quarters) = Fin 1"
  "totalPercentage64 (take 2 quarters) = Fin 2"
  "totalPercentage64 (take 3 quarters) = Fin 3"
  "totalPercentage64 (take 4 quarters) = Fin 4"
  "totalPercentage64 quarters = Fin 4"
  by (simp_all add: totalPercentage64_def quarters_def steps64 del: add64.simps mul64.simps div64.simps)

lemma quarters_percentage:
  "mul64 (Fin 1) (Fin 100) = Fin 100"
  "getSinglePercentage64 quarters (Fin 1) = Fin 25"
  by (simp_all add: getSinglePercentage64_def quarters_totals steps64 del: add64.simps mul64.simps div64.simps)

lemma quarters_slice:
  "mul64 circumference64 (getSinglePercentage64 quarters (Fin 1)) = Fin (5526748243772219 / 2199023255552)"
  "getSlice64 quarters (Fin 1) = Fin (884279719003555 / 35184372088832)"
  by (simp_all add: getSlice64_def quarters_percentage circumference64_number steps64 del: add64.simps mul64.simps div64.simps)

lemma quarters_term:
  "div64 (getSinglePercentage64 quarters (Fin 1)) (Fin 100) = Fin (1 / 4)"
  "mul64 (div64 (getSinglePercentage64 quarters (Fin 1)) (Fin 100)) (Fin 360) = Fin 90"
  by (simp_all add: quarters_percentage steps64 del: add64.simps mul64.simps div64.simps)

lemma quarters_rotation:
  "getRotate64 quarters 1 = Inr (Fin 90)"
  "getRotate64 quarters 2 = Inr (Fin 180)"
  "getRotate64 quarters 3 = Inr (Fin 270)"
  "getRotate64 quarters 4 = Inr (Fin 360)"
  using getRotate64_fold [of 1 quarters] getRotate64_fold [of 2 quarters] getRotate64_fold [of 3 quarters] getRotate64_fold [of 4 quarters]
  by (simp_all add: cumulativeRotation64_quantities quarters_quantities quarters_term steps64 del: add64.simps mul64.simps div64.simps)

lemma quarters_prefixes: "set [1..<Suc (length quarters)] = {1, 2, 3, 4}"
  by (auto simp: quarters_quantities)

lemma quarters_totals_in_range: "totals_in_range quarters"
  unfolding totals_in_range_def quarters_prefixes
  by (simp add: quarters_totals positive_normal_def powr_neg_numeral)

lemma quarters_entries: "d \<in> set quarters \<Longrightarrow> quantity d = Fin 1"
  by (auto simp: quarters_def)

lemma quarters_slices_in_range: "slices_in_range quarters"
  unfolding slices_in_range_def
proof
  fix d
  assume "d \<in> set quarters"
  then have "quantity d = Fin 1"
    by (rule quarters_entries)
  then show "positive_normal (mul64 (quantity d) (Fin 100)) \<and>
        positive_normal (getSinglePercentage64 quarters (quantity d)) \<and>
        positive_normal (mul64 circumference64 (getSinglePercentage64 quarters (quantity d))) \<and>
        positive_normal (getSlice64 quarters (quantity d))"
    by (simp_all add: quarters_percentage quarters_slice circumference64_number steps64
        positive_normal_def powr_neg_numeral del: add64.simps mul64.simps div64.simps)
qed

lemma quarters_rotation_in_range: "rotation_in_range quarters"
  unfolding rotation_in_range_def
proof (rule conjI)
  show "\<forall>d\<in>set quarters.
        positive_normal (mul64 (quantity d) (Fin 100)) \<and>
        positive_normal (getSinglePercentage64 quarters (quantity d)) \<and>
        positive_normal (div64 (getSinglePercentage64 quarters (quantity d)) (Fin 100)) \<and>
        positive_normal
          (mul64 (div64 (getSinglePercentage64 quarters (quantity d)) (Fin 100)) (Fin 360))"
  proof
    fix d
    assume "d \<in> set quarters"
    then have "quantity d = Fin 1"
      by (rule quarters_entries)
    then show "positive_normal (mul64 (quantity d) (Fin 100)) \<and>
        positive_normal (getSinglePercentage64 quarters (quantity d)) \<and>
        positive_normal (div64 (getSinglePercentage64 quarters (quantity d)) (Fin 100)) \<and>
        positive_normal
          (mul64 (div64 (getSinglePercentage64 quarters (quantity d)) (Fin 100)) (Fin 360))"
      by (simp_all add: quarters_percentage quarters_term steps64 positive_normal_def
          powr_neg_numeral del: add64.simps mul64.simps div64.simps)
  qed
next
  show "\<forall>k\<in>set [1..<Suc (length quarters)].
          (case getRotate64 quarters (int k) of Inl e \<Rightarrow> False | Inr angle \<Rightarrow> positive_normal angle)"
  proof
    fix k
    assume "k \<in> set [1..<Suc (length quarters)]"
    then have "k \<in> {1, 2, 3, 4}"
      by (simp only: quarters_prefixes)
    then show "case getRotate64 quarters (int k) of Inl e \<Rightarrow> False | Inr angle \<Rightarrow> positive_normal angle"
      by (elim insertE emptyE) (simp_all add: quarters_rotation positive_normal_def powr_neg_numeral)
  qed
qed

lemma mock_data_quantities:
  "map quantity mock_data = [Fin 70, Fin 10, Fin 20]"
  "length mock_data = 3"
  by (simp_all add: mock_data_def)

lemma mock_data_totals:
  "totalPercentage64 (take (Suc 0) mock_data) = Fin 70"
  "totalPercentage64 (take 2 mock_data) = Fin 80"
  "totalPercentage64 (take 3 mock_data) = Fin 100"
  "totalPercentage64 mock_data = Fin 100"
  by (simp_all add: totalPercentage64_def mock_data_def steps64 del: add64.simps mul64.simps div64.simps)

lemma mock_data_percentage:
  "mul64 (Fin 70) (Fin 100) = Fin 7000"
  "getSinglePercentage64 mock_data (Fin 70) = Fin 70"
  "mul64 (Fin 10) (Fin 100) = Fin 1000"
  "getSinglePercentage64 mock_data (Fin 10) = Fin 10"
  "mul64 (Fin 20) (Fin 100) = Fin 2000"
  "getSinglePercentage64 mock_data (Fin 20) = Fin 20"
  by (simp_all add: getSinglePercentage64_def mock_data_totals steps64 del: add64.simps mul64.simps div64.simps)

lemma mock_data_slice:
  "mul64 circumference64 (getSinglePercentage64 mock_data (Fin 70)) = Fin (3868723770640553 / 549755813888)"
  "getSlice64 mock_data (Fin 70) = Fin (1237991606604977 / 17592186044416)"
  "mul64 circumference64 (getSinglePercentage64 mock_data (Fin 10)) = Fin (4421398595017775 / 4398046511104)"
  "getSlice64 mock_data (Fin 10) = Fin (176855943800711 / 17592186044416)"
  "mul64 circumference64 (getSinglePercentage64 mock_data (Fin 20)) = Fin (4421398595017775 / 2199023255552)"
  "getSlice64 mock_data (Fin 20) = Fin (176855943800711 / 8796093022208)"
  by (simp_all add: getSlice64_def mock_data_percentage circumference64_number steps64 del: add64.simps mul64.simps div64.simps)

lemma mock_data_term:
  "div64 (getSinglePercentage64 mock_data (Fin 70)) (Fin 100) = Fin (3152519739159347 / 4503599627370496)"
  "mul64 (div64 (getSinglePercentage64 mock_data (Fin 70)) (Fin 100)) (Fin 360) = Fin (8866461766385663 / 35184372088832)"
  "div64 (getSinglePercentage64 mock_data (Fin 10)) (Fin 100) = Fin (3602879701896397 / 36028797018963968)"
  "mul64 (div64 (getSinglePercentage64 mock_data (Fin 10)) (Fin 100)) (Fin 360) = Fin 36"
  "div64 (getSinglePercentage64 mock_data (Fin 20)) (Fin 100) = Fin (3602879701896397 / 18014398509481984)"
  "mul64 (div64 (getSinglePercentage64 mock_data (Fin 20)) (Fin 100)) (Fin 360) = Fin 72"
  by (simp_all add: mock_data_percentage steps64 del: add64.simps mul64.simps div64.simps)

lemma mock_data_rotation:
  "getRotate64 mock_data 1 = Inr (Fin (8866461766385663 / 35184372088832))"
  "getRotate64 mock_data 2 = Inr (Fin 288)"
  "getRotate64 mock_data 3 = Inr (Fin 360)"
  using getRotate64_fold [of 1 mock_data] getRotate64_fold [of 2 mock_data] getRotate64_fold [of 3 mock_data]
  by (simp_all add: cumulativeRotation64_quantities mock_data_quantities mock_data_term steps64 del: add64.simps mul64.simps div64.simps)

lemma mock_data_prefixes: "set [1..<Suc (length mock_data)] = {1, 2, 3}"
  by (auto simp: mock_data_quantities)

lemma mock_data_totals_in_range: "totals_in_range mock_data"
  unfolding totals_in_range_def mock_data_prefixes
  by (simp add: mock_data_totals positive_normal_def powr_neg_numeral)

lemma mock_data_entries: "d \<in> set mock_data \<Longrightarrow> quantity d = Fin 70 \<or> quantity d = Fin 10 \<or> quantity d = Fin 20"
  by (auto simp: mock_data_def)

lemma mock_data_slices_in_range: "slices_in_range mock_data"
  unfolding slices_in_range_def
proof
  fix d
  assume "d \<in> set mock_data"
  then have "quantity d = Fin 70 \<or> quantity d = Fin 10 \<or> quantity d = Fin 20"
    by (rule mock_data_entries)
  then show "positive_normal (mul64 (quantity d) (Fin 100)) \<and>
        positive_normal (getSinglePercentage64 mock_data (quantity d)) \<and>
        positive_normal (mul64 circumference64 (getSinglePercentage64 mock_data (quantity d))) \<and>
        positive_normal (getSlice64 mock_data (quantity d))"
    by (elim disjE) (simp_all add: mock_data_percentage mock_data_slice circumference64_number steps64
        positive_normal_def powr_neg_numeral del: add64.simps mul64.simps div64.simps)
qed

lemma mock_data_rotation_in_range: "rotation_in_range mock_data"
  unfolding rotation_in_range_def
proof (rule conjI)
  show "\<forall>d\<in>set mock_data.
        positive_normal (mul64 (quantity d) (Fin 100)) \<and>
        positive_normal (getSinglePercentage64 mock_data (quantity d)) \<and>
        positive_normal (div64 (getSinglePercentage64 mock_data (quantity d)) (Fin 100)) \<and>
        positive_normal
          (mul64 (div64 (getSinglePercentage64 mock_data (quantity d)) (Fin 100)) (Fin 360))"
  proof
    fix d
    assume "d \<in> set mock_data"
    then have "quantity d = Fin 70 \<or> quantity d = Fin 10 \<or> quantity d = Fin 20"
      by (rule mock_data_entries)
    then show "positive_normal (mul64 (quantity d) (Fin 100)) \<and>
        positive_normal (getSinglePercentage64 mock_data (quantity d)) \<and>
        positive_normal (div64 (getSinglePercentage64 mock_data (quantity d)) (Fin 100)) \<and>
        positive_normal
          (mul64 (div64 (getSinglePercentage64 mock_data (quantity d)) (Fin 100)) (Fin 360))"
      by (elim disjE) (simp_all add: mock_data_percentage mock_data_term steps64 positive_normal_def
          powr_neg_numeral del: add64.simps mul64.simps div64.simps)
  qed
next
  show "\<forall>k\<in>set [1..<Suc (length mock_data)].
          (case getRotate64 mock_data (int k) of Inl e \<Rightarrow> False | Inr angle \<Rightarrow> positive_normal angle)"
  proof
    fix k
    assume "k \<in> set [1..<Suc (length mock_data)]"
    then have "k \<in> {1, 2, 3}"
      by (simp only: mock_data_prefixes)
    then show "case getRotate64 mock_data (int k) of Inl e \<Rightarrow> False | Inr angle \<Rightarrow> positive_normal angle"
      by (elim insertE emptyE) (simp_all add: mock_data_rotation positive_normal_def powr_neg_numeral)
  qed
qed

section \<open>Dash lengths\<close>

lemma map_Fin_eq: "map Fin xs = map Fin ys \<Longrightarrow> xs = ys"
  by (simp add: inj_map_eq_map inj_on_def)

lemma quarters_slices:
  "map (\<lambda>d. getSlice64 quarters (quantity d)) quarters
     = [Fin (32 * PI64 / 4), Fin (32 * PI64 / 4), Fin (32 * PI64 / 4), Fin (32 * PI64 / 4)]"
proof -
  have "map (\<lambda>d. getSlice64 quarters (quantity d)) quarters
          = map (getSlice64 quarters) (map quantity quarters)"
    by simp
  also have "\<dots> = [Fin (32 * PI64 / 4), Fin (32 * PI64 / 4), Fin (32 * PI64 / 4), Fin (32 * PI64 / 4)]"
    by (simp only: quarters_quantities list.map quarters_slice) (simp add: PI64_def)
  finally show ?thesis .
qed

lemma thirds_slices:
  "map (\<lambda>d. getSlice64 thirds (quantity d)) thirds
     = [Fin (2358079250676147 / 70368744177664), Fin (2358079250676147 / 70368744177664),
        Fin (2358079250676147 / 70368744177664)]"
proof -
  have "map (\<lambda>d. getSlice64 thirds (quantity d)) thirds
          = map (getSlice64 thirds) (map quantity thirds)"
    by simp
  also have "\<dots> = [Fin (2358079250676147 / 70368744177664), Fin (2358079250676147 / 70368744177664),
        Fin (2358079250676147 / 70368744177664)]"
    by (simp only: thirds_quantities list.map thirds_slice)
  finally show ?thesis .
qed

text \<open>
  C1. In the arithmetic of the program the dash lengths need not add up to the
  circumference exactly. For at least one entry, finite positive quantities and a
  computation that stays in range, the sum of the dash lengths of all slices is the
  circumference times the sum of the percentages over 100 up to two roundings, the
  percentages add up to 100 up to \<open>n + 2\<close> roundings for \<open>n\<close> entries, and the sum of
  the dash lengths is the circumference up to \<open>n + 4\<close> roundings, whatever the total
  of the quantities is. The circumference is the number \<open>2 * Math.PI * 16\<close> as the
  program computes it, 32 times the binary64 value of \<open>Math.PI\<close>. With the quantities
  \<open>1, 1, 1, 1\<close> every dash length is exactly a quarter of this circumference.
\<close>

theorem getSlice64_sum:
  assumes "map quantity data = map Fin qs" and "qs \<noteq> []" and "\<forall>q\<in>set qs. 0 < q"
    and "totals_in_range data" and "slices_in_range data"
  shows "(\<exists>ss ps. map (\<lambda>d. getSlice64 data (quantity d)) data = map Fin ss \<and>
                 map (\<lambda>d. getSinglePercentage64 data (quantity d)) data = map Fin ps \<and>
                 circumference64 = Fin (32 * PI64) \<and>
                 close_to 0 2 (sum_list ss) (32 * PI64 * sum_list ps / 100) \<and>
                 close_to (length data) 2 (sum_list ps) 100 \<and>
                 close_to (length data) 4 (sum_list ss) (32 * PI64)) \<and>
         map (\<lambda>d. getSlice64 quarters (quantity d)) quarters
           = [Fin (32 * PI64 / 4), Fin (32 * PI64 / 4), Fin (32 * PI64 / 4), Fin (32 * PI64 / 4)]"
  using slices64_close [OF assms] quarters_slices by blast

theorem getSlice64_sum_witness:
  "map quantity thirds = map Fin [1, 1, 1] \<and>
   totals_in_range thirds \<and> slices_in_range thirds \<and>
   map (\<lambda>d. getSlice64 thirds (quantity d)) thirds
     = map Fin [2358079250676147 / 70368744177664, 2358079250676147 / 70368744177664,
         2358079250676147 / 70368744177664] \<and>
   close_to 3 4
     (sum_list [2358079250676147 / 70368744177664, 2358079250676147 / 70368744177664,
        2358079250676147 / 70368744177664])
     (32 * PI64)"
proof -
  have q: "map quantity thirds = map Fin [1, 1, 1]"
    by (simp add: thirds_quantities)
  have ne: "[1, 1, 1 :: real] \<noteq> []" by simp
  have pos: "\<forall>q\<in>set [1, 1, 1 :: real]. 0 < q" by simp
  note r = getSlice64_sum [OF q ne pos thirds_totals_in_range thirds_slices_in_range]
  then obtain ss where ss: "map (\<lambda>d. getSlice64 thirds (quantity d)) thirds = map Fin ss"
      "close_to (length thirds) 4 (sum_list ss) (32 * PI64)"
    by blast
  have vals: "map (\<lambda>d. getSlice64 thirds (quantity d)) thirds
     = map Fin [2358079250676147 / 70368744177664, 2358079250676147 / 70368744177664,
         2358079250676147 / 70368744177664]"
    by (simp only: thirds_slices list.map)
  with ss(1) have "ss = [2358079250676147 / 70368744177664, 2358079250676147 / 70368744177664,
         2358079250676147 / 70368744177664]"
    by (intro map_Fin_eq) simp
  with ss(2) have "close_to 3 4
     (sum_list [2358079250676147 / 70368744177664, 2358079250676147 / 70368744177664,
        2358079250676147 / 70368744177664])
     (32 * PI64)"
    by (simp only: thirds_quantities(2))
  with q vals thirds_totals_in_range thirds_slices_in_range show ?thesis
    by blast
qed

text \<open>
  With the quantities \<open>1, 1, 1\<close> the three dash lengths do not add up to the
  circumference, neither exactly nor added in binary64.
\<close>

theorem getSlice64_thirds:
  "map (\<lambda>d. getSlice64 thirds (quantity d)) thirds
     = [Fin (2358079250676147 / 70368744177664), Fin (2358079250676147 / 70368744177664),
        Fin (2358079250676147 / 70368744177664)] \<and>
   circumference64 = Fin (884279719003555 / 8796093022208) \<and>
   (2358079250676147 / 70368744177664 + 2358079250676147 / 70368744177664
      + 2358079250676147 / 70368744177664 :: real) \<noteq> 884279719003555 / 8796093022208 \<and>
   foldl add64 (Fin 0)
     [Fin (2358079250676147 / 70368744177664), Fin (2358079250676147 / 70368744177664),
      Fin (2358079250676147 / 70368744177664)]
     = Fin (7074237752028441 / 70368744177664) \<and>
   (7074237752028441 / 70368744177664 :: real) \<noteq> 884279719003555 / 8796093022208"
proof -
  have "foldl add64 (Fin 0)
     [Fin (2358079250676147 / 70368744177664), Fin (2358079250676147 / 70368744177664),
      Fin (2358079250676147 / 70368744177664)]
     = Fin (7074237752028441 / 70368744177664)"
    by (simp add: steps64 del: add64.simps)
  with thirds_slices circumference64_number show ?thesis
    by simp
qed

section \<open>Rotation\<close>

lemma cumulativeRotation64_mono:
  assumes q: "map quantity data = map Fin qs" and pos: "\<forall>q\<in>set qs. 0 < q"
    and t: "totalPercentage64 data = Fin t" "close_to 0 n t T" "0 < T"
    and range: "rotation_in_range data"
  shows "i \<le> j \<Longrightarrow> j \<le> length data \<Longrightarrow>
         \<exists>a b. cumulativeRotation64 i data = Fin a \<and> cumulativeRotation64 j data = Fin b \<and> a \<le> b"
proof (induction j)
  case 0
  then have "i = 0" by simp
  then show ?case
    by (simp add: cumulativeRotation64_def)
next
  case (Suc j)
  from q have len: "length qs = length data"
    by (metis length_map)
  from Suc.prems have j: "j < length data" by simp
  obtain b where b: "cumulativeRotation64 j data = Fin b" "on_grid b"
    using cumulativeRotation64_close [OF q pos t range, of j] j by auto
  obtain c where c: "cumulativeRotation64 (Suc j) data = Fin c"
    using cumulativeRotation64_close [OF q pos t range, of "Suc j"] j by auto
  from q j have qj: "quantity (data ! j) = Fin (qs ! j)"
    by (metis len nth_map)
  from pos j len have qpos: "0 < qs ! j"
    by simp
  have mem: "data ! j \<in> set data"
    using j by simp
  from range mem qj have normal:
    "positive_normal (mul64 (Fin (qs ! j)) (Fin 100))"
    "positive_normal (getSinglePercentage64 data (Fin (qs ! j)))"
    "positive_normal (div64 (getSinglePercentage64 data (Fin (qs ! j))) (Fin 100))"
    "positive_normal (mul64 (div64 (getSinglePercentage64 data (Fin (qs ! j))) (Fin 100)) (Fin 360))"
    unfolding rotation_in_range_def by force+
  obtain r where r: "mul64 (div64 (getSinglePercentage64 data (Fin (qs ! j))) (Fin 100)) (Fin 360) = Fin r"
      "close_to n 4 r (360 * qs ! j / T)"
    using term64_close [OF t qpos normal] by blast
  have "0 < r"
    using r(2) qpos t(3) by (intro close_to_positive [of n 4 r "360 * qs ! j / T"]) simp_all
  then have r0: "0 \<le> r" by simp
  have step: "b \<le> c"
    using b c j r(1) r0 by (intro cumulativeRotation64_step_mono [of j data b c r]) (simp_all add: qj)
  show ?case
  proof (cases "i = Suc j")
    case True
    with c show ?thesis by auto
  next
    case False
    with Suc.prems have "i \<le> j" "j \<le> length data" by simp_all
    then obtain a b' where "cumulativeRotation64 i data = Fin a" "cumulativeRotation64 j data = Fin b'"
        "a \<le> b'"
      using Suc.IH by blast
    with b(1) c step show ?thesis by auto
  qed
qed

text \<open>
  C2. In the arithmetic of the program, \<open>getRotate\<close> at a position \<open>i\<close> up to the
  number of entries is the sum, added from the left in binary64, of the angles
  \<open>(getSinglePercentage(quantity) / 100) * 360\<close> of the entries strictly before \<open>i\<close>;
  it is 0 at position 0. For \<open>n\<close> entries, at least one, finite positive quantities
  and a computation that stays in range, it does not decrease with the position; at
  every position \<open>i\<close> it is the exact sum of the angles \<open>360 * quantity / total\<close> of
  the entries before \<open>i\<close> up to \<open>n + i + 4\<close> roundings, and so at position \<open>n\<close> it
  is 360 up to \<open>2 * n + 4\<close> roundings; it need not be 360 exactly.
\<close>

theorem getRotate64_cumulative:
  assumes "map quantity data = map Fin qs" and "qs \<noteq> []" and "\<forall>q\<in>set qs. 0 < q"
    and "totals_in_range data" and "rotation_in_range data"
  shows "(\<forall>i\<le>length data. getRotate64 data (int i) = Inr (cumulativeRotation64 i data)) \<and>
         getRotate64 data 0 = Inr (Fin 0) \<and>
         (\<forall>i j. i \<le> j \<and> j \<le> length data \<longrightarrow>
            (\<exists>a b. getRotate64 data (int i) = Inr (Fin a) \<and> getRotate64 data (int j) = Inr (Fin b)
                    \<and> a \<le> b)) \<and>
         (\<forall>i\<le>length data. \<exists>a. getRotate64 data (int i) = Inr (Fin a) \<and>
              close_to (length data) (i + 4) a (360 * sum_list (take i qs) / sum_list qs)) \<and>
         (\<exists>a. getRotate64 data (int (length data)) = Inr (Fin a) \<and>
              close_to (length data) (length data + 4) a 360)"
proof -
  from assms(1) have len: "length qs = length data"
    by (metis length_map)
  obtain t where t: "totalPercentage64 data = Fin t" "close_to 0 (length data) t (sum_list qs)"
    using totalPercentage64_close [OF assms(1,3,4)] len by auto
  have T: "0 < sum_list qs"
    using assms(2,3) by (rule sum_list_positive)
  have a: "\<forall>i\<le>length data. getRotate64 data (int i) = Inr (cumulativeRotation64 i data)"
    by (simp add: getRotate64_fold)
  have b: "getRotate64 data 0 = Inr (Fin 0)"
    using getRotate64_fold [of 0 data] by (simp add: cumulativeRotation64_def)
  have c: "\<forall>i j. i \<le> j \<and> j \<le> length data \<longrightarrow>
            (\<exists>a b. getRotate64 data (int i) = Inr (Fin a) \<and> getRotate64 data (int j) = Inr (Fin b)
                    \<and> a \<le> b)"
  proof (intro allI impI)
    fix i j
    assume ij: "i \<le> j \<and> j \<le> length data"
    then obtain x y where "cumulativeRotation64 i data = Fin x" "cumulativeRotation64 j data = Fin y"
        "x \<le> y"
      using cumulativeRotation64_mono [OF assms(1,3) t T assms(5), of i j] by blast
    with ij show "\<exists>a b. getRotate64 data (int i) = Inr (Fin a)
                      \<and> getRotate64 data (int j) = Inr (Fin b) \<and> a \<le> b"
      by (simp add: getRotate64_fold)
  qed
  obtain z where z: "cumulativeRotation64 (length data) data = Fin z"
      "close_to (length data) (4 + length data) z
         (360 * sum_list (take (length data) qs) / sum_list qs)"
    using cumulativeRotation64_close [OF assms(1,3) t T assms(5), of "length data"] by auto
  from z(2) T have "close_to (length data) (length data + 4) z 360"
    by (simp add: len [symmetric] add.commute)
  with z(1) have d: "\<exists>a. getRotate64 data (int (length data)) = Inr (Fin a) \<and>
              close_to (length data) (length data + 4) a 360"
    by (simp add: getRotate64_fold)
  have e: "\<forall>i\<le>length data. \<exists>a. getRotate64 data (int i) = Inr (Fin a) \<and>
              close_to (length data) (i + 4) a (360 * sum_list (take i qs) / sum_list qs)"
  proof (intro allI impI)
    fix i
    assume i: "i \<le> length data"
    then obtain x where x: "cumulativeRotation64 i data = Fin x"
        "close_to (length data) (4 + i) x (360 * sum_list (take i qs) / sum_list qs)"
      using cumulativeRotation64_close [OF assms(1,3) t T assms(5), of i] by auto
    from x(2) have "close_to (length data) (i + 4) x (360 * sum_list (take i qs) / sum_list qs)"
      by (simp add: add.commute)
    with x(1) i show "\<exists>a. getRotate64 data (int i) = Inr (Fin a) \<and>
              close_to (length data) (i + 4) a (360 * sum_list (take i qs) / sum_list qs)"
      by (simp add: getRotate64_fold)
  qed
  from a b c e d show ?thesis by blast
qed

theorem getRotate64_cumulative_witness:
  "map quantity mock_data = map Fin [70, 10, 20] \<and>
   totals_in_range mock_data \<and> rotation_in_range mock_data \<and>
   getRotate64 mock_data 0 = Inr (Fin 0) \<and>
   getRotate64 mock_data 2 = Inr (cumulativeRotation64 2 mock_data) \<and>
   (\<exists>a b. getRotate64 mock_data 1 = Inr (Fin a) \<and> getRotate64 mock_data 2 = Inr (Fin b) \<and> a \<le> b) \<and>
   getRotate64 mock_data 3 = Inr (Fin 360) \<and>
   close_to 3 7 360 360"
proof -
  have q: "map quantity mock_data = map Fin [70, 10, 20]"
    by (simp add: mock_data_quantities)
  have ne: "[70, 10, 20 :: real] \<noteq> []" by simp
  have pos: "\<forall>q\<in>set [70, 10, 20 :: real]. 0 < q" by simp
  note r = getRotate64_cumulative [OF q ne pos mock_data_totals_in_range mock_data_rotation_in_range]
  from r have zero: "getRotate64 mock_data 0 = Inr (Fin 0)"
    by blast
  from r have "\<forall>i\<le>length mock_data. getRotate64 mock_data (int i) = Inr (cumulativeRotation64 i mock_data)"
    by blast
  moreover have "(2 :: nat) \<le> length mock_data"
    by (simp add: mock_data_quantities)
  ultimately have "getRotate64 mock_data (int 2) = Inr (cumulativeRotation64 2 mock_data)"
    by blast
  then have two: "getRotate64 mock_data 2 = Inr (cumulativeRotation64 2 mock_data)"
    by simp
  from r have "\<forall>i j. i \<le> j \<and> j \<le> length mock_data \<longrightarrow>
      (\<exists>a b. getRotate64 mock_data (int i) = Inr (Fin a) \<and> getRotate64 mock_data (int j) = Inr (Fin b)
              \<and> a \<le> b)"
    by blast
  then have "(1 :: nat) \<le> 2 \<and> 2 \<le> length mock_data \<longrightarrow>
      (\<exists>a b. getRotate64 mock_data (int 1) = Inr (Fin a) \<and> getRotate64 mock_data (int 2) = Inr (Fin b)
              \<and> a \<le> b)"
    by blast
  then have mono: "\<exists>a b. getRotate64 mock_data 1 = Inr (Fin a)
      \<and> getRotate64 mock_data 2 = Inr (Fin b) \<and> a \<le> b"
    by (simp add: mock_data_quantities)
  from r obtain a where a: "getRotate64 mock_data (int (length mock_data)) = Inr (Fin a)"
      "close_to (length mock_data) (length mock_data + 4) a 360"
    by blast
  from a(1) have "a = 360"
    by (simp add: mock_data_quantities mock_data_rotation)
  with a have three: "getRotate64 mock_data 3 = Inr (Fin 360)" and close: "close_to 3 7 360 360"
    by (simp_all add: mock_data_quantities)
  from q mock_data_totals_in_range mock_data_rotation_in_range zero two mono three close
  show ?thesis by blast
qed

text \<open>
  With the quantities \<open>1, 1, 1\<close> the rotation at the number of entries is not 360,
  and the rotation of the second entry of the mock data is not 252.
\<close>

theorem getRotate64_thirds:
  "getRotate64 thirds 3 = Inr (Fin (6333186975989761 / 17592186044416)) \<and>
   (6333186975989761 / 17592186044416 :: real) \<noteq> 360 \<and>
   getRotate64 mock_data 1 = Inr (Fin (8866461766385663 / 35184372088832)) \<and>
   (8866461766385663 / 35184372088832 :: real) \<noteq> 252"
  using thirds_rotation(3) mock_data_rotation(1) by simp

lemma getRotate_loop_error:
  "counter \<le> length data \<Longrightarrow>
   (getRotate_loop data index angle counter = Inl TypeError) = (int (length data) < index)"
proof (induction data index angle counter rule: getRotate_loop.induct)
  case (1 data index angle counter)
  show ?case
  proof (cases "int counter < index")
    case False
    with "1.prems" show ?thesis
      by (subst getRotate_loop.simps) simp
  next
    case True
    show ?thesis
    proof (cases "counter < length data")
      case inside: True
      with True "1.IH" show ?thesis
        by (subst getRotate_loop.simps) (simp del: getRotate_loop.simps)
    next
      case False
      with True "1.prems" show ?thesis
        by (subst getRotate_loop.simps) (simp del: getRotate_loop.simps)
    qed
  qed
qed

lemma getRotate_error: "(getRotate data index = Inl TypeError) = (int (length data) < index)"
  unfolding getRotate_def by (rule getRotate_loop_error) simp

lemma getRotate_defined:
  assumes "index \<le> int (length data)"
  shows "\<exists>angle. getRotate data index = Inr angle"
proof -
  from assms have "getRotate data index \<noteq> Inl TypeError"
    by (simp add: getRotate_error)
  then show ?thesis
    by (cases "getRotate data index") (auto intro: error.exhaust)
qed

text \<open>
  C9. \<open>getRotate\<close> reads the array at every position below its argument without
  a check of the bound: it returns an angle when the argument is at most the number of
  entries, and for every argument above the number of entries a read is out of range
  and the call throws.
\<close>

theorem getRotate_bounds:
  "(index \<le> int (length data) \<longrightarrow> (\<exists>angle. getRotate data index = Inr angle)) \<and>
   (int (length data) < index \<longrightarrow> getRotate data index = Inl TypeError)"
  by (simp add: getRotate_defined getRotate_error)

theorem getRotate_bounds_witness:
  "(\<exists>angle. getRotate mock_data 3 = Inr angle) \<and> getRotate mock_data 4 = Inl TypeError"
  using getRotate_bounds [of 3 mock_data] getRotate_bounds [of 4 mock_data]
  by (simp add: mock_data_def)

section \<open>Mask radii and delays\<close>

text \<open>
  C7. The mask radius of the entry at position \<open>i\<close> of \<open>n\<close> entries is
  \<open>16 - n + i\<close>: it grows by exactly 1 from one position to the next, so it is strictly
  increasing, and three entries get the radii 13, 14, 15.
\<close>

theorem maskRadius_formula:
  "maskRadius data i = 16 - int (length data) + int i \<and>
   maskRadius data (Suc i) = maskRadius data i + 1 \<and>
   (i < j \<longrightarrow> maskRadius data i < maskRadius data j) \<and>
   (length data = 3 \<longrightarrow> map (maskRadius data) [0, 1, 2] = [13, 14, 15])"
  by (simp add: maskRadius_def minRadiusMask_def radius_def)

theorem maskRadius_formula_witness:
  "maskRadius mock_data 0 < maskRadius mock_data 1 \<and>
   map (maskRadius mock_data) [0, 1, 2] = [13, 14, 15]"
  using maskRadius_formula [of mock_data 0 1] by (simp add: mock_data_def)

text \<open>
  C10. The mask radius of every entry of a chart is below the radius 16 of the circles.
  Nothing bounds it from below: with more than 16 entries the mask radius of the first
  entry is negative, and with 16 entries it is zero.
\<close>

theorem maskRadius_below_radius:
  "(i < length data \<longrightarrow> maskRadius data i < 16) \<and>
   radius = 16 \<and>
   (16 < length data \<longrightarrow> maskRadius data 0 < 0) \<and>
   (length data = 16 \<longrightarrow> maskRadius data 0 = 0)"
  by (simp add: maskRadius_def minRadiusMask_def radius_def)

theorem maskRadius_below_radius_witness:
  "maskRadius mock_data 2 < 16 \<and>
   maskRadius (replicate 17 (hd mock_data)) 0 < 0 \<and>
   maskRadius (replicate 16 (hd mock_data)) 0 = 0"
  using maskRadius_below_radius [of 2 mock_data]
    maskRadius_below_radius [of 0 "replicate 17 (hd mock_data)"]
    maskRadius_below_radius [of 0 "replicate 16 (hd mock_data)"]
  by (simp add: mock_data_def)



section \<open>A total of zero\<close>

lemma slice_defined:
  assumes "i \<le> length data"
  shows "\<exists>s. slice data i datum = Inr s \<and> mask_id s = getId (label datum) \<and>
             mask_r s = maskRadius data i \<and> dash s = getSlice data (quantity datum)"
proof -
  from assms have "int i \<le> int (length data)" by simp
  then obtain angle where "getRotate data (int i) = Inr angle"
    using getRotate_defined by blast
  then show ?thesis
    by (simp add: slice_def)
qed

lemma slices_from_defined:
  "i + length rest \<le> length data \<Longrightarrow>
   \<exists>ss. slices_from data i rest = Inr ss \<and>
        map mask_id ss = map (\<lambda>d. getId (label d)) rest \<and>
        map dash ss = map (\<lambda>d. getSlice data (quantity d)) rest"
proof (induction rest arbitrary: i)
  case Nil
  then show ?case by simp
next
  case (Cons datum rest)
  from Cons.prems have "i \<le> length data" by simp
  then obtain s where s: "slice data i datum = Inr s" "mask_id s = getId (label datum)"
      "mask_r s = maskRadius data i" "dash s = getSlice data (quantity datum)"
    using slice_defined by blast
  from Cons.prems have "Suc i + length rest \<le> length data" by simp
  then obtain ss where ss: "slices_from data (Suc i) rest = Inr ss"
      "map mask_id ss = map (\<lambda>d. getId (label d)) rest"
      "map dash ss = map (\<lambda>d. getSlice data (quantity d)) rest"
    using Cons.IH by blast
  from s ss show ?case
    by simp
qed

lemma pieChart_defined:
  "\<exists>ss. pieChart data = Inr ss \<and>
        map mask_id ss = map (\<lambda>d. getId (label d)) data \<and>
        map dash ss = map (\<lambda>d. getSlice data (quantity d)) data"
  unfolding pieChart_def using slices_from_defined [of 0 data data] by simp






section \<open>Identifiers\<close>

lemma str_split_none:
  "separator \<notin> set s \<Longrightarrow> str_split s separator = [s]"
  by (induction s) auto

lemma str_split_first:
  "separator \<notin> set a \<Longrightarrow>
   str_split (a @ separator # rest) separator = a # str_split rest separator"
  by (induction a) auto


lemma digit_cases:
  assumes "d < (10 :: nat)"
  shows "d \<in> {0, 1, 2, 3, 4, 5, 6, 7, 8, 9}"
  using assms by auto

lemma digit_char_in: "d < 10 \<Longrightarrow> digit_char d \<in> set ''0123456789''"
  unfolding digit_char_def by (rule nth_mem) simp

lemma radix_digit_digit_char: "d < 10 \<Longrightarrow> radix_digit 10 (digit_char d) = Some d"
  by (drule digit_cases, elim insertE emptyE)
     (simp_all add: digit_char_def radix_digit_def digit_value_def)

lemma digit_char_inj: "d < 10 \<Longrightarrow> e < 10 \<Longrightarrow> digit_char d = digit_char e \<Longrightarrow> d = e"
  using radix_digit_digit_char by (metis option.inject)

lemma show_nat_digits: "set (show_nat n) \<subseteq> set ''0123456789''"
proof (induction n rule: show_nat.induct)
  case (1 n)
  show ?case
  proof (cases "n < 10")
    case True
    then show ?thesis
      using digit_char_in [of n] by (subst show_nat.simps) simp
  next
    case False
    with "1.IH" digit_char_in [of "n mod 10"] show ?thesis
      by (subst show_nat.simps) simp
  qed
qed

lemma show_nat_not_empty: "show_nat n \<noteq> []"
  by (subst show_nat.simps) simp

lemma radix_digit_decimal: "c \<in> set ''0123456789'' \<Longrightarrow> radix_digit 10 c \<noteq> None"
  by (auto simp: radix_digit_def digit_value_def)

lemma parse_digits_append:
  "\<forall>c\<in>set xs. radix_digit R c \<noteq> None \<Longrightarrow>
   parse_digits R (xs @ ys) acc = parse_digits R ys (parse_digits R xs acc)"
  by (induction xs arbitrary: acc) auto

lemma parse_digits_show_nat: "parse_digits 10 (show_nat n) None = Some n"
proof (induction n rule: show_nat.induct)
  case (1 n)
  show ?case
  proof (cases "n < 10")
    case True
    then show ?thesis
      by (subst show_nat.simps) (simp add: radix_digit_digit_char)
  next
    case False
    have digits: "\<forall>c\<in>set (show_nat (n div 10)). radix_digit 10 c \<noteq> None"
      using show_nat_digits radix_digit_decimal by blast
    have "parse_digits 10 (show_nat (n div 10) @ [digit_char (n mod 10)]) None
            = parse_digits 10 [digit_char (n mod 10)] (Some (n div 10))"
      using False "1.IH" by (simp add: parse_digits_append [OF digits])
    also have "\<dots> = Some (10 * (n div 10) + n mod 10)"
      by (simp add: radix_digit_digit_char)
    also have "\<dots> = Some n"
      by simp
    finally show ?thesis
      using False by (subst show_nat.simps) simp
  qed
qed

lemma parseInt_show_nat: "parseInt (Some (CHR '' '' # show_nat n)) = Some (int n)"
proof -
  obtain c cs where cs: "show_nat n = c # cs"
    using show_nat_not_empty by (cases "show_nat n") auto
  with show_nat_digits [of n] have c: "c \<in> set ''0123456789''" and rest: "set cs \<subseteq> set ''0123456789''"
    by auto
  from c have ws: "\<not> white_space c" and sign: "c \<noteq> CHR ''+''" "c \<noteq> CHR ''-''"
    by (auto simp: white_space_def)
  have "CHR ''x'' \<notin> set cs" "CHR ''X'' \<notin> set cs"
    using rest by auto
  then have hex: "take 1 cs \<noteq> ''x''" "take 1 cs \<noteq> ''X''"
    by (cases cs, simp, auto)+
  from parse_digits_show_nat [of n] have p: "parse_digits 10 (c # cs) None = Some n"
    by (simp add: cs)
  show ?thesis
    unfolding parseInt_def string_to_string_def Let_def
    using ws sign hex p by (simp add: cs white_space_def del: parse_digits.simps)
qed


lemma show_nat_inj: "show_nat m = show_nat n \<Longrightarrow> m = n"
  using parse_digits_show_nat by (metis option.inject)

lemma show_nat_no_dash: "CHR ''-'' \<notin> set (show_nat n)"
  using show_nat_digits [of n] by auto

lemma suffix_after_last_dash:
  assumes "CHR ''-'' \<notin> set s" and "CHR ''-'' \<notin> set t"
    and "a @ CHR ''-'' # s = b @ CHR ''-'' # t"
  shows "s = t"
proof -
  have "takeWhile (\<lambda>c. c \<noteq> CHR ''-'') (rev (a @ CHR ''-'' # s)) = rev s"
    using assms(1) by (auto simp: takeWhile_tail)
  moreover have "takeWhile (\<lambda>c. c \<noteq> CHR ''-'') (rev (b @ CHR ''-'' # t)) = rev t"
    using assms(2) by (auto simp: takeWhile_tail)
  ultimately have "rev s = rev t"
    using assms(3) by simp
  then show ?thesis by simp
qed

lemma getId_index_distinct:
  assumes "i \<noteq> j"
  shows "getId_index l1 i \<noteq> getId_index l2 j"
proof
  assume "getId_index l1 i = getId_index l2 j"
  then have "str_replace l1 CHR '' '' ''-'' @ CHR ''-'' # show_nat i
               = str_replace l2 CHR '' '' ''-'' @ CHR ''-'' # show_nat j"
    by (simp add: getId_index_def)
  then have "show_nat i = show_nat j"
    by (rule suffix_after_last_dash [OF show_nat_no_dash show_nat_no_dash])
  with assms show False
    by (simp add: show_nat_inj)
qed

lemma str_replace_first:
  "pattern \<notin> set a \<Longrightarrow>
   str_replace (a @ pattern # b) pattern replacement = a @ replacement @ b"
  by (induction a) auto

lemma str_replace_none:
  "pattern \<notin> set s \<Longrightarrow> str_replace s pattern replacement = s"
  by (induction s) auto

lemma getId_first_space:
  "CHR '' '' \<notin> set a \<Longrightarrow> getId (a @ '' '' @ b) = a @ ''-'' @ b"
  by (simp add: getId_def str_replace_first)

lemma getId_examples:
  "getId ''Ipsum Dolor'' = ''Ipsum-Dolor'' \<and> getId ''Ipsum-Dolor'' = ''Ipsum-Dolor'' \<and>
   getId ''Ipsum Dolor Sit'' = ''Ipsum-Dolor Sit'' \<and>
   getId_index ''Ipsum Dolor'' 1 = ''Ipsum-Dolor-1'' \<and>
   getId_index ''Ipsum-Dolor'' 1 = ''Ipsum-Dolor-1'' \<and>
   getId_index ''Ipsum Dolor Sit'' 12 = ''Ipsum-Dolor Sit-12''"
  by (simp add: getId_def getId_index_def show_nat.simps digit_char_def)

text \<open>
  C4. Two entries of \<open>PieChart.vue\<close> with the same label get the same identifier,
  because \<open>getId\<close> there takes the label only; with the position as second argument,
  as in the variant with the gradient and in the tutorial, the identifiers differ.
\<close>

theorem getId_same_label:
  "(\<exists>ss. pieChart same_label_data = Inr ss \<and> map mask_id ss = [''Lorem'', ''Lorem'']) \<and>
   map (\<lambda>(i, d). getId_index (label d) i) (enumerate 0 same_label_data)
     = [''Lorem-0'', ''Lorem-1'']"
proof -
  obtain ss where chart: "pieChart same_label_data = Inr ss"
      and ids: "map mask_id ss = map (\<lambda>d. getId (label d)) same_label_data"
    using pieChart_defined by blast
  have "map (\<lambda>d. getId (label d)) same_label_data = [''Lorem'', ''Lorem'']"
    by (simp add: same_label_data_def getId_def)
  with chart ids have a: "\<exists>ss. pieChart same_label_data = Inr ss
      \<and> map mask_id ss = [''Lorem'', ''Lorem'']"
    by simp
  have b: "map (\<lambda>(i, d). getId_index (label d) i) (enumerate 0 same_label_data)
     = [''Lorem-0'', ''Lorem-1'']"
    by (simp add: same_label_data_def getId_index_def show_nat.simps digit_char_def)
  from a b show ?thesis ..
qed

section \<open>Colors\<close>

lemma parseInt_undefined: "parseInt None = None"
  by (simp add: parseInt_def string_to_string_def white_space_def radix_digit_def digit_value_def)

lemma colorBrightness_NaN:
  assumes "parseInt (at_index (str_split c CHR ''%'') 1) = None"
  shows "colorBrightness c
           = string_to_string (at_index (str_split c CHR ''%'') 0) @ ''% NaN% ''
               @ string_to_string (at_index (str_split c CHR ''%'') 2)"
  using assms by (simp add: colorBrightness_def lightness_of_def int_to_string_def Let_def)

lemma str_split_not_empty: "str_split s separator \<noteq> []"
  by (induction s) (auto split: list.splits)

lemma str_split_hd:
  "hd (str_split s separator) = takeWhile (\<lambda>x. x \<noteq> separator) s"
  using str_split_not_empty [of _ separator] by (induction s) (auto split: list.splits)

lemma str_split_cons:
  "str_split s separator = takeWhile (\<lambda>x. x \<noteq> separator) s # tl (str_split s separator)"
  using str_split_not_empty [of s separator] str_split_hd [of s separator]
  by (cases "str_split s separator") auto

lemma colorBrightness_split2:
  assumes "CHR ''%'' \<notin> set a" and "CHR ''%'' \<notin> set b"
  shows "colorBrightness (a @ ''%'' @ b)
           = a @ ''% '' @ int_to_string (lightness_of (parseInt (Some b))) @ ''% undefined''"
proof -
  have "str_split (a @ ''%'' @ b) CHR ''%'' = [a, b]"
    using assms by (simp add: str_split_first str_split_none)
  then show ?thesis
    unfolding colorBrightness_def Let_def
    by (simp add: at_index_def string_to_string_def)
qed

lemma colorBrightness_split_more:
  assumes "CHR ''%'' \<notin> set a" and "CHR ''%'' \<notin> set b"
  shows "colorBrightness (a @ ''%'' @ b @ ''%'' @ rest)
           = a @ ''% '' @ int_to_string (lightness_of (parseInt (Some b))) @ ''% ''
               @ takeWhile (\<lambda>x. x \<noteq> CHR ''%'') rest"
proof -
  have "str_split (a @ ''%'' @ b @ ''%'' @ rest) CHR ''%'' = a # b # str_split rest CHR ''%''"
    using assms by (simp add: str_split_first)
  also have "\<dots> = a # b # takeWhile (\<lambda>x. x \<noteq> CHR ''%'') rest # tl (str_split rest CHR ''%'')"
    using str_split_cons [of rest "CHR ''%''"] by simp
  finally show ?thesis
    unfolding colorBrightness_def Let_def
    by (simp add: at_index_def string_to_string_def)
qed

lemma lightness_NaN:
  "parseInt (Some b) = None \<Longrightarrow> int_to_string (lightness_of (parseInt (Some b))) = ''NaN''"
  by (simp add: lightness_of_def int_to_string_def)

lemma parseInt_nbsp: "parseInt (Some [CHR 0xA0, CHR ''7'']) = Some 7"
  by (simp add: parseInt_def string_to_string_def white_space_def radix_digit_def digit_value_def)

text \<open>
  C5. \<open>colorBrightness\<close> rejects no color: it returns a string for every string.
  When no integer can be read from the piece after the first \<open>%\<close>, the result has
  \<open>NaN\<close> in the place of the lightness. A color without any \<open>%\<close> comes back
  followed by \<open>% NaN% undefined\<close>. A color \<open>a%b\<close> with a single \<open>%\<close> gives
  \<open>a\<close>, \<open>% \<close>, the lightness computed from \<open>b\<close> (or \<open>NaN\<close>) and
  \<open>% undefined\<close>: the third piece is missing. A color \<open>a%b%rest\<close> gives \<open>a\<close>,
  \<open>% \<close>, the lightness computed from \<open>b\<close> (or \<open>NaN\<close>), \<open>% \<close> and what
  \<open>rest\<close> holds before its first \<open>%\<close>: further pieces are dropped.
\<close>

theorem colorBrightness_no_rejection:
  "(parseInt (at_index (str_split c CHR ''%'') 1) = None \<longrightarrow>
      colorBrightness c
        = string_to_string (at_index (str_split c CHR ''%'') 0) @ ''% NaN% ''
            @ string_to_string (at_index (str_split c CHR ''%'') 2)) \<and>
   (CHR ''%'' \<notin> set c \<longrightarrow> colorBrightness c = c @ ''% NaN% undefined'') \<and>
   (CHR ''%'' \<notin> set a \<and> CHR ''%'' \<notin> set b \<longrightarrow>
      colorBrightness (a @ ''%'' @ b)
        = a @ ''% '' @ int_to_string (lightness_of (parseInt (Some b))) @ ''% undefined'' \<and>
      colorBrightness (a @ ''%'' @ b @ ''%'' @ rest)
        = a @ ''% '' @ int_to_string (lightness_of (parseInt (Some b))) @ ''% ''
            @ takeWhile (\<lambda>x. x \<noteq> CHR ''%'') rest \<and>
      (parseInt (Some b) = None \<longrightarrow>
         colorBrightness (a @ ''%'' @ b) = a @ ''% NaN% undefined'' \<and>
         colorBrightness (a @ ''%'' @ b @ ''%'' @ rest)
           = a @ ''% NaN% '' @ takeWhile (\<lambda>x. x \<noteq> CHR ''%'') rest))"
proof (intro conjI impI)
  assume "parseInt (at_index (str_split c CHR ''%'') 1) = None"
  then show "colorBrightness c
        = string_to_string (at_index (str_split c CHR ''%'') 0) @ ''% NaN% ''
            @ string_to_string (at_index (str_split c CHR ''%'') 2)"
    by (rule colorBrightness_NaN)
next
  assume "CHR ''%'' \<notin> set c"
  then have split: "str_split c CHR ''%'' = [c]"
    by (rule str_split_none)
  then have "parseInt (at_index (str_split c CHR ''%'') 1) = None"
    by (simp add: at_index_def parseInt_undefined)
  then have "colorBrightness c
        = string_to_string (at_index (str_split c CHR ''%'') 0) @ ''% NaN% ''
            @ string_to_string (at_index (str_split c CHR ''%'') 2)"
    by (rule colorBrightness_NaN)
  then show "colorBrightness c = c @ ''% NaN% undefined''"
    by (simp add: split at_index_def string_to_string_def)
next
  assume "CHR ''%'' \<notin> set a \<and> CHR ''%'' \<notin> set b"
  then show "colorBrightness (a @ ''%'' @ b)
        = a @ ''% '' @ int_to_string (lightness_of (parseInt (Some b))) @ ''% undefined''"
    using colorBrightness_split2 [of a b] by blast
next
  assume "CHR ''%'' \<notin> set a \<and> CHR ''%'' \<notin> set b"
  then show "colorBrightness (a @ ''%'' @ b @ ''%'' @ rest)
        = a @ ''% '' @ int_to_string (lightness_of (parseInt (Some b))) @ ''% ''
            @ takeWhile (\<lambda>x. x \<noteq> CHR ''%'') rest"
    using colorBrightness_split_more [of a b rest] by blast
next
  assume "CHR ''%'' \<notin> set a \<and> CHR ''%'' \<notin> set b" and "parseInt (Some b) = None"
  then show "colorBrightness (a @ ''%'' @ b) = a @ ''% NaN% undefined''"
    using colorBrightness_split2 [of a b] lightness_NaN [of b] by simp
next
  assume "CHR ''%'' \<notin> set a \<and> CHR ''%'' \<notin> set b" and "parseInt (Some b) = None"
  then show "colorBrightness (a @ ''%'' @ b @ ''%'' @ rest)
           = a @ ''% NaN% '' @ takeWhile (\<lambda>x. x \<noteq> CHR ''%'') rest"
    using colorBrightness_split_more [of a b rest] lightness_NaN [of b] by simp
qed

theorem colorBrightness_no_rejection_witness:
  "colorBrightness ''hsl(20 60%'' = ''hsl(20 60% NaN% undefined'' \<and>
   colorBrightness ''#ff0000'' = ''#ff0000% NaN% undefined'' \<and>
   colorBrightness ''hsl(20 60% 50'' = ''hsl(20 60% 20% undefined'' \<and>
   colorBrightness ''a%50'' = ''a% 20% undefined'' \<and>
   colorBrightness ''a%b'' = ''a% NaN% undefined'' \<and>
   colorBrightness ''1%2%3%4'' = ''1% 22% 3'' \<and>
   colorBrightness ''a%b%c%d'' = ''a% NaN% c''"
proof -
  have "parseInt (at_index (str_split ''hsl(20 60%'' CHR ''%'') 1) = None"
    by (simp add: at_index_def parseInt_def string_to_string_def)
  with colorBrightness_no_rejection [of "''hsl(20 60%''"]
  have a: "colorBrightness ''hsl(20 60%'' = ''hsl(20 60% NaN% undefined''"
    by (simp add: at_index_def string_to_string_def)
  have "CHR ''%'' \<notin> set ''#ff0000''" by simp
  with colorBrightness_no_rejection [of "''#ff0000''"]
  have b: "colorBrightness ''#ff0000'' = ''#ff0000% NaN% undefined''"
    by simp
  have p: "parseInt (Some '' 50'') = Some 50" "parseInt (Some ''50'') = Some 50"
      "parseInt (Some ''2'') = Some 2" "parseInt (Some ''b'') = None"
    by (simp_all add: parseInt_def string_to_string_def white_space_def radix_digit_def
        digit_value_def)
  have c: "colorBrightness ''hsl(20 60% 50'' = ''hsl(20 60% 20% undefined''"
    using colorBrightness_no_rejection [of "[]" "''hsl(20 60''" "'' 50''" "[]"] p(1)
    by (simp add: lightness_of_def int_to_string_def show_nat.simps digit_char_def)
  have d: "colorBrightness ''a%50'' = ''a% 20% undefined''"
    using colorBrightness_no_rejection [of "[]" "''a''" "''50''" "[]"] p(2)
    by (simp add: lightness_of_def int_to_string_def show_nat.simps digit_char_def)
  have e: "colorBrightness ''a%b'' = ''a% NaN% undefined''"
    using colorBrightness_no_rejection [of "[]" "''a''" "''b''" "[]"] p(4)
    by (simp add: lightness_of_def int_to_string_def)
  have f: "colorBrightness ''1%2%3%4'' = ''1% 22% 3''"
    using colorBrightness_no_rejection [of "[]" "''1''" "''2''" "''3%4''"] p(3)
    by (simp add: lightness_of_def int_to_string_def show_nat.simps digit_char_def)
  have g: "colorBrightness ''a%b%c%d'' = ''a% NaN% c''"
    using colorBrightness_no_rejection [of "[]" "''a''" "''b''" "''c%d''"] p(4)
    by (simp add: lightness_of_def int_to_string_def)
  from a b c d e f g show ?thesis by blast
qed

text \<open>The color \<open>red\<close> is not rejected.\<close>

theorem colorBrightness_red: "colorBrightness ''red'' = ''red% NaN% undefined''"
  by (simp add: colorBrightness_def at_index_def parseInt_def white_space_def radix_digit_def
      digit_value_def lightness_of_def int_to_string_def string_to_string_def)

lemma colorBrightness_split3:
  assumes "CHR ''%'' \<notin> set a" and "CHR ''%'' \<notin> set b" and "CHR ''%'' \<notin> set c"
  shows "colorBrightness (a @ ''%'' @ b @ ''%'' @ c)
           = a @ ''% '' @ int_to_string (lightness_of (parseInt (Some b))) @ ''% '' @ c"
proof -
  have "str_split (a @ ''%'' @ b @ ''%'' @ c) CHR ''%'' = [a, b, c]"
    using assms by (simp add: str_split_first str_split_none)
  then show ?thesis
    unfolding colorBrightness_def Let_def
    by (simp add: at_index_def string_to_string_def)
qed

lemma colorBrightness_hsl:
  "colorBrightness (hsl h s l)
     = ''hsl('' @ show_nat h @ '' '' @ show_nat s @ ''% ''
         @ show_nat (if l > 30 then l - 30 else l + 20) @ ''% )''"
proof -
  have digits: "\<And>n. CHR ''%'' \<notin> set (show_nat n)"
    using show_nat_digits by fastforce
  have a: "CHR ''%'' \<notin> set (''hsl('' @ show_nat h @ '' '' @ show_nat s)"
    using digits by simp
  have b: "CHR ''%'' \<notin> set (CHR '' '' # show_nat l)"
    using digits by simp
  have c: "CHR ''%'' \<notin> set '')''"
    by simp
  have "hsl h s l = (''hsl('' @ show_nat h @ '' '' @ show_nat s) @ ''%'' @ (CHR '' '' # show_nat l)
          @ ''%'' @ '')''"
    by (simp add: hsl_def)
  then have "colorBrightness (hsl h s l)
      = (''hsl('' @ show_nat h @ '' '' @ show_nat s) @ ''% ''
          @ int_to_string (lightness_of (parseInt (Some (CHR '' '' # show_nat l)))) @ ''% '' @ '')''"
    by (simp only: colorBrightness_split3 [OF a b c])
  then show ?thesis
    by (simp add: parseInt_show_nat lightness_of_def int_to_string_def nat_diff_distrib nat_add_distrib)
qed

lemma colorBrightness_split3_parsed:
  assumes "CHR ''%'' \<notin> set a" and "CHR ''%'' \<notin> set b" and "CHR ''%'' \<notin> set c"
    and "parseInt (Some b) = Some n"
  shows "colorBrightness (a @ ''%'' @ b @ ''%'' @ c)
           = a @ ''% '' @ int_to_string (Some (if n > 30 then n - 30 else n + 20)) @ ''% '' @ c"
  by (simp only: colorBrightness_split3 [OF assms(1-3)] assms(4) lightness_of_def)
     (simp split: if_splits)

text \<open>
  C6. For a color \<open>a%b%c\<close> whose pieces hold no \<open>%\<close> and whose middle piece reads
  as the integer \<open>n\<close>, \<open>colorBrightness\<close> returns \<open>a\<close>, \<open>% \<close>, the new lightness,
  \<open>% \<close> and \<open>c\<close>, where the new lightness is \<open>n - 30\<close> when \<open>n\<close> exceeds 30 and
  \<open>n + 20\<close> otherwise. For a color \<open>hsl(H S% L%)\<close> hue and saturation are kept and the
  lightness is replaced so, and the result ends in \<open>% )\<close>: a space stands before the
  closing parenthesis.
\<close>

theorem colorBrightness_pieces:
  "(CHR ''%'' \<notin> set a \<and> CHR ''%'' \<notin> set b \<and> CHR ''%'' \<notin> set c \<and> parseInt (Some b) = Some n \<longrightarrow>
      colorBrightness (a @ ''%'' @ b @ ''%'' @ c)
        = a @ ''% '' @ int_to_string (Some (if n > 30 then n - 30 else n + 20)) @ ''% '' @ c) \<and>
   colorBrightness (hsl h s l)
     = ''hsl('' @ show_nat h @ '' '' @ show_nat s @ ''% ''
         @ show_nat (if l > 30 then l - 30 else l + 20) @ ''% )''"
  using colorBrightness_split3_parsed colorBrightness_hsl by blast

theorem colorBrightness_pieces_witness:
  "colorBrightness ''hsl(180 60% 25%)'' = ''hsl(180 60% 45% )'' \<and>
   colorBrightness ''hsl(200 60% 70%)'' = ''hsl(200 60% 40% )''"
proof -
  have p: "parseInt (Some '' 25'') = Some 25" "parseInt (Some '' 70'') = Some 70"
    by (simp_all add: parseInt_def string_to_string_def white_space_def radix_digit_def
        digit_value_def)
  have a: "colorBrightness ''hsl(180 60% 25%)'' = ''hsl(180 60% 45% )''"
    using colorBrightness_pieces [of "''hsl(180 60''" "'' 25''" "'')''" 25] p(1)
    by (simp add: int_to_string_def show_nat.simps digit_char_def)
  have b: "colorBrightness ''hsl(200 60% 70%)'' = ''hsl(200 60% 40% )''"
    using colorBrightness_pieces [of "''hsl(200 60''" "'' 70''" "'')''" 70] p(2)
    by (simp add: int_to_string_def show_nat.simps digit_char_def)
  from a b show ?thesis ..
qed

text \<open>
  The first color of the mock data does not come back as the same string with the
  lightness replaced, and of three bare numbers the second is the one replaced.
\<close>

theorem colorBrightness_mock:
  "colorBrightness ''hsl(20 60% 50%)'' = ''hsl(20 60% 20% )'' \<and>
   colorBrightness ''hsl(20 60% 50%)'' \<noteq> ''hsl(20 60% 20%)'' \<and>
   colorBrightness ''20%60%50'' = ''20% 30% 50''"
  by (simp add: colorBrightness_def at_index_def parseInt_def white_space_def radix_digit_def
      digit_value_def lightness_of_def int_to_string_def string_to_string_def show_nat.simps
      digit_char_def)

end
